theory Spec2Isabelle
  imports Main "HOL-Library.Sublist"
begin

section \<open>Configuration model\<close>

text \<open>
  \<^verbatim>\<open>type Variable struct { Name, Value, Operation string }\<close> and
  \<^verbatim>\<open>type Config struct { UserVariables, SystemVariables []Variable }\<close>.
  A Go string is a byte sequence: \<open>string\<close>. A nil slice and an empty slice are both \<open>[]\<close>.
\<close>

record Variable =
  Name :: string
  Value :: string
  Operation :: string

record Config =
  UserVariables :: "Variable list"
  SystemVariables :: "Variable list"

section \<open>File-type guard\<close>

text \<open>
  \<^verbatim>\<open>strings.ToLower\<close>, on bytes: the letters \<open>A\<close> to \<open>Z\<close> move to \<open>a\<close> to \<open>z\<close>,
  every other byte stays. (The library lowers runes; the results compared here are the
  ASCII texts \<open>.yaml\<close> and \<open>.yml\<close>, whose letters only ASCII capitals lower to.)
\<close>

definition lower_char :: "char \<Rightarrow> char" where
  "lower_char c =
     (if 65 \<le> (of_char c :: nat) \<and> (of_char c :: nat) \<le> 90
      then char_of ((of_char c :: nat) + 32) else c)"

definition ToLower :: "string \<Rightarrow> string" where
  "ToLower s = map lower_char s"

text \<open>\<^verbatim>\<open>strings.HasSuffix(s, suffix)\<close>.\<close>

definition HasSuffix :: "string \<Rightarrow> string \<Rightarrow> bool" where
  "HasSuffix s suf = suffix suf s"

text \<open>\<^verbatim>\<open>os.IsPathSeparator\<close> on Windows: backslash or slash.\<close>

definition IsPathSeparator :: "char \<Rightarrow> bool" where
  "IsPathSeparator c = (c = CHR 0x5C \<or> c = CHR ''/'')"

text \<open>
  \<^verbatim>\<open>filepath.Ext\<close>:
  \<^verbatim>\<open>for i := len(path) - 1; i >= 0 && !os.IsPathSeparator(path[i]); i-- {
       if path[i] == '.' { return path[i:] } }
     return ""\<close>
  \<open>Ext_from path n\<close> is the loop about to look at index \<open>n - 1\<close>.
\<close>

fun Ext_from :: "string \<Rightarrow> nat \<Rightarrow> string" where
  "Ext_from path 0 = []"
| "Ext_from path (Suc i) =
     (if IsPathSeparator (path ! i) then []
      else if path ! i = CHR ''.'' then drop i path
      else Ext_from path i)"

definition Ext :: "string \<Rightarrow> string" where
  "Ext path = Ext_from path (length path)"

text \<open>\<^verbatim>\<open>isValidYAMLFile\<close>.\<close>

definition isValidYAMLFile :: "string \<Rightarrow> bool" where
  "isValidYAMLFile filePath =
     (let ext = ToLower (Ext filePath) in ext = ''.yaml'' \<or> ext = ''.yml'')"

section \<open>Declarative file as the YAML library reads it\<close>

text \<open>
  Modelled from the spec: \<^verbatim>\<open>yaml.Marshal\<close> and \<^verbatim>\<open>yaml.Unmarshal\<close>, which belong
  to the YAML library, outside the repository's own sources. The program contributes the struct tags
  \<open>user_variables\<close>, \<open>system_variables\<close>, \<open>name\<close>, \<open>value\<close>, \<open>operation\<close>; the spec's
  Serializer gives the rest: malformed text is an error, unknown keys are ignored, a missing
  list is empty, fields are rendered in declaration order. A file is represented by the
  document its text denotes (\<open>NotYAML\<close> for text the library rejects), so that the library's
  scanner and emitter do not appear.
\<close>

datatype yaml_node =
    Null
  | Scalar string
  | Seq "yaml_node list"
  | Mapping "(string \<times> yaml_node) list"

datatype file_data = NotYAML | YAML yaml_node

datatype yaml_error = SyntaxError | TypeError

text \<open>Decoding into a \<^verbatim>\<open>string\<close> field: a null leaves the zero value, a scalar gives its text.\<close>

fun unmarshal_string :: "yaml_node \<Rightarrow> yaml_error + string" where
  "unmarshal_string Null = Inr []"
| "unmarshal_string (Scalar s) = Inr s"
| "unmarshal_string (Seq ns) = Inl TypeError"
| "unmarshal_string (Mapping kvs) = Inl TypeError"

text \<open>
  Decoding a mapping into \<^verbatim>\<open>Variable\<close>: each key is matched against the tags, a key
  that matches none is ignored, a later duplicate overwrites an earlier one.
\<close>

fun unmarshal_Variable_fields ::
  "(string \<times> yaml_node) list \<Rightarrow> Variable \<Rightarrow> yaml_error + Variable" where
  "unmarshal_Variable_fields [] v = Inr v"
| "unmarshal_Variable_fields ((k, n) # kvs) v =
     (if k = ''name'' then
        (case unmarshal_string n of
           Inl e \<Rightarrow> Inl e
         | Inr s \<Rightarrow> unmarshal_Variable_fields kvs (v\<lparr>Name := s\<rparr>))
      else if k = ''value'' then
        (case unmarshal_string n of
           Inl e \<Rightarrow> Inl e
         | Inr s \<Rightarrow> unmarshal_Variable_fields kvs (v\<lparr>Value := s\<rparr>))
      else if k = ''operation'' then
        (case unmarshal_string n of
           Inl e \<Rightarrow> Inl e
         | Inr s \<Rightarrow> unmarshal_Variable_fields kvs (v\<lparr>Operation := s\<rparr>))
      else unmarshal_Variable_fields kvs v)"

definition zero_Variable :: Variable where
  "zero_Variable = \<lparr>Name = [], Value = [], Operation = []\<rparr>"

fun unmarshal_Variable :: "yaml_node \<Rightarrow> yaml_error + Variable" where
  "unmarshal_Variable Null = Inr zero_Variable"
| "unmarshal_Variable (Mapping kvs) = unmarshal_Variable_fields kvs zero_Variable"
| "unmarshal_Variable (Scalar s) = Inl TypeError"
| "unmarshal_Variable (Seq ns) = Inl TypeError"

fun unmarshal_each :: "yaml_node list \<Rightarrow> yaml_error + Variable list" where
  "unmarshal_each [] = Inr []"
| "unmarshal_each (n # ns) =
     (case unmarshal_Variable n of
        Inl e \<Rightarrow> Inl e
      | Inr v \<Rightarrow> (case unmarshal_each ns of Inl e \<Rightarrow> Inl e | Inr vs \<Rightarrow> Inr (v # vs)))"

fun unmarshal_Variables :: "yaml_node \<Rightarrow> yaml_error + Variable list" where
  "unmarshal_Variables Null = Inr []"
| "unmarshal_Variables (Seq ns) = unmarshal_each ns"
| "unmarshal_Variables (Scalar s) = Inl TypeError"
| "unmarshal_Variables (Mapping kvs) = Inl TypeError"

fun unmarshal_Config_fields ::
  "(string \<times> yaml_node) list \<Rightarrow> Config \<Rightarrow> yaml_error + Config" where
  "unmarshal_Config_fields [] c = Inr c"
| "unmarshal_Config_fields ((k, n) # kvs) c =
     (if k = ''user_variables'' then
        (case unmarshal_Variables n of
           Inl e \<Rightarrow> Inl e
         | Inr vs \<Rightarrow> unmarshal_Config_fields kvs (c\<lparr>UserVariables := vs\<rparr>))
      else if k = ''system_variables'' then
        (case unmarshal_Variables n of
           Inl e \<Rightarrow> Inl e
         | Inr vs \<Rightarrow> unmarshal_Config_fields kvs (c\<lparr>SystemVariables := vs\<rparr>))
      else unmarshal_Config_fields kvs c)"

definition zero_Config :: Config where
  "zero_Config = \<lparr>UserVariables = [], SystemVariables = []\<rparr>"

text \<open>
  Modelled from the spec: \<^verbatim>\<open>var config Config; err = yaml.Unmarshal(yamlFile, &config)\<close>,
  the spec's Parse.
\<close>

fun Unmarshal :: "file_data \<Rightarrow> yaml_error + Config" where
  "Unmarshal NotYAML = Inl SyntaxError"
| "Unmarshal (YAML Null) = Inr zero_Config"
| "Unmarshal (YAML (Mapping kvs)) = unmarshal_Config_fields kvs zero_Config"
| "Unmarshal (YAML (Scalar s)) = Inl TypeError"
| "Unmarshal (YAML (Seq ns)) = Inl TypeError"

text \<open>
  Modelled from the spec: \<^verbatim>\<open>yaml.Marshal(&config)\<close>, the spec's Render: the fields in
  declaration order under their tags, every string as a string scalar, a slice (nil or
  not) as a sequence. Marshalling these two structs has no error case.
\<close>

definition marshal_Variable :: "Variable \<Rightarrow> yaml_node" where
  "marshal_Variable v =
     Mapping [(''name'', Scalar (Name v)), (''value'', Scalar (Value v)),
              (''operation'', Scalar (Operation v))]"

definition Marshal :: "Config \<Rightarrow> file_data" where
  "Marshal c =
     YAML (Mapping [(''user_variables'', Seq (map marshal_Variable (UserVariables c))),
                    (''system_variables'', Seq (map marshal_Variable (SystemVariables c)))])"

section \<open>The registry, opened for writing\<close>

text \<open>
  Modelled from the spec: the store behind \<^verbatim>\<open>registry.Key\<close> (the registry library,
  outside the repository's own sources), the spec's Store Adapter: upsert and delete on a store from names to
  values, the delete of a missing name being the not-found case. The state of one key as
  \<^verbatim>\<open>applyVariables\<close> meets it: whether
  \<^verbatim>\<open>registry.OpenKey(hive, path, registry.SET_VALUE)\<close> succeeds, the names on which the
  key turns a write down with an error other than not-found (the case that the
  "Failed to set" and "Failed to delete" branches of \<^verbatim>\<open>applyVariables\<close> provide for), and
  the values stored.
\<close>

record reg_key =
  can_write :: bool
  refused :: "string \<Rightarrow> bool"
  vals :: "string \<rightharpoonup> string"

datatype reg_error = ErrNotExist | ErrOther

text \<open>\<^verbatim>\<open>key.SetStringValue(name, value)\<close>: creates or overwrites.\<close>

definition SetStringValue :: "reg_key \<Rightarrow> string \<Rightarrow> string \<Rightarrow> reg_error option \<times> reg_key" where
  "SetStringValue k n v =
     (if refused k n then (Some ErrOther, k)
      else (None, k\<lparr>vals := (vals k)(n \<mapsto> v)\<rparr>))"

text \<open>
  \<^verbatim>\<open>key.DeleteValue(name)\<close>: a name that is not there gives the error that
  \<^verbatim>\<open>os.IsNotExist\<close> recognises.
\<close>

definition DeleteValue :: "reg_key \<Rightarrow> string \<Rightarrow> reg_error option \<times> reg_key" where
  "DeleteValue k n =
     (if vals k n = None then (Some ErrNotExist, k)
      else if refused k n then (Some ErrOther, k)
      else (None, k\<lparr>vals := (vals k)(n := None)\<rparr>))"

datatype hive = CURRENT_USER | LOCAL_MACHINE

fun hiveName :: "hive \<Rightarrow> string" where
  "hiveName CURRENT_USER = ''HKEY_CURRENT_USER''"
| "hiveName LOCAL_MACHINE = ''HKEY_LOCAL_MACHINE''"

definition userEnvironmentPath :: string where
  "userEnvironmentPath = ''Environment''"

definition systemEnvironmentPath :: string where
  "systemEnvironmentPath =
     ''SYSTEM'' @ CHR 0x5C # ''CurrentControlSet'' @ CHR 0x5C # ''Control'' @ CHR 0x5C #
     ''Session Manager'' @ CHR 0x5C # ''Environment''"

section \<open>Applying a configuration\<close>

text \<open>
  What the program does to the outside, in order (\<open>trace\<close>), and the line it prints for
  each entry (\<open>console\<close>).
\<close>

datatype event =
    EvReadFile string
  | EvOpenKey hive string
  | EvSetValue hive string string
  | EvDeleteValue hive string
  | EvBroadcast
  | EvWriteFile string

datatype outcome =
    SetOk string string
  | SetFailed string string
  | DeleteOk string
  | AlreadyAbsent string
  | DeleteFailed string
  | UnknownOperation string string

record world =
  files :: "string \<rightharpoonup> file_data"
  write_denied :: "string \<Rightarrow> bool"
  hkcu :: reg_key
  hklm :: reg_key
  broadcast_ok :: bool
  trace :: "event list"
  console :: "outcome list"

fun key_of :: "hive \<Rightarrow> world \<Rightarrow> reg_key" where
  "key_of CURRENT_USER w = hkcu w"
| "key_of LOCAL_MACHINE w = hklm w"

fun put_key :: "hive \<Rightarrow> reg_key \<Rightarrow> world \<Rightarrow> world" where
  "put_key CURRENT_USER k w = w\<lparr>hkcu := k\<rparr>"
| "put_key LOCAL_MACHINE k w = w\<lparr>hklm := k\<rparr>"

definition emit :: "event \<Rightarrow> world \<Rightarrow> world" where
  "emit e w = w\<lparr>trace := trace w @ [e]\<rparr>"

definition print :: "outcome \<Rightarrow> world \<Rightarrow> world" where
  "print out w = w\<lparr>console := console w @ [out]\<rparr>"

text \<open>The body of the loop of \<^verbatim>\<open>applyVariables\<close>: the \<^verbatim>\<open>switch v.Operation\<close>.\<close>

definition apply_entry :: "hive \<Rightarrow> Variable \<Rightarrow> world \<Rightarrow> world" where
  "apply_entry h v w =
     (if Operation v = ''set'' then
        (case SetStringValue (key_of h w) (Name v) (Value v) of
           (Some err, k) \<Rightarrow>
             print (SetFailed (Name v) (Value v))
               (put_key h k (emit (EvSetValue h (Name v) (Value v)) w))
         | (None, k) \<Rightarrow>
             print (SetOk (Name v) (Value v))
               (put_key h k (emit (EvSetValue h (Name v) (Value v)) w)))
      else if Operation v = ''delete'' then
        (case DeleteValue (key_of h w) (Name v) of
           (Some ErrNotExist, k) \<Rightarrow>
             print (AlreadyAbsent (Name v)) (put_key h k (emit (EvDeleteValue h (Name v)) w))
         | (Some ErrOther, k) \<Rightarrow>
             print (DeleteFailed (Name v)) (put_key h k (emit (EvDeleteValue h (Name v)) w))
         | (None, k) \<Rightarrow>
             print (DeleteOk (Name v)) (put_key h k (emit (EvDeleteValue h (Name v)) w)))
      else print (UnknownOperation (Operation v) (Name v)) w)"

text \<open>
  The error of \<^verbatim>\<open>applyVariables\<close>, "failed to open registry key ...", with the hive
  name and the path it names.
\<close>

datatype store_error = StoreAccessError string string

text \<open>\<^verbatim>\<open>applyVariables(variables, hive, subkeyPath)\<close>.\<close>

definition applyVariables ::
  "Variable list \<Rightarrow> hive \<Rightarrow> string \<Rightarrow> world \<Rightarrow> store_error option \<times> world" where
  "applyVariables variables h subkeyPath w =
     (if can_write (key_of h w)
      then (None, fold (apply_entry h) variables (emit (EvOpenKey h subkeyPath) w))
      else (Some (StoreAccessError (hiveName h) subkeyPath), emit (EvOpenKey h subkeyPath) w))"

text \<open>\<^verbatim>\<open>broadcastSettingChange\<close>: one \<^verbatim>\<open>SendMessageTimeoutW\<close> call; it fails when the call returns 0.\<close>

definition broadcastSettingChange :: "world \<Rightarrow> bool \<times> world" where
  "broadcastSettingChange w = (broadcast_ok w, emit EvBroadcast w)"

datatype apply_status =
    NoFileSelected
  | InvalidFileType
  | ReadFileError string
  | UnmarshalError yaml_error
  | ApplyUserError store_error
  | ApplySystemError store_error
  | SystemVariablesIgnored
  | BroadcastError
  | AppliedSuccessfully

definition notify :: "world \<Rightarrow> apply_status \<times> world" where
  "notify w =
     (case broadcastSettingChange w of
        (True, w') \<Rightarrow> (AppliedSuccessfully, w')
      | (False, w') \<Rightarrow> (BroadcastError, w'))"

text \<open>
  \<^verbatim>\<open>applyEnvVars\<close> from the point where the configuration is parsed (the lines after
  \<^verbatim>\<open>yaml.Unmarshal\<close>): user scope, then system scope behind \<^verbatim>\<open>isAdmin\<close>, then the broadcast.
\<close>

definition applyConfig :: "bool \<Rightarrow> Config \<Rightarrow> world \<Rightarrow> apply_status \<times> world" where
  "applyConfig isAdmin config w =
     (case applyVariables (UserVariables config) CURRENT_USER userEnvironmentPath w of
        (Some err, w1) \<Rightarrow> (ApplyUserError err, w1)
      | (None, w1) \<Rightarrow>
          (if isAdmin then
             (case applyVariables (SystemVariables config) LOCAL_MACHINE systemEnvironmentPath w1 of
                (Some err, w2) \<Rightarrow> (ApplySystemError err, w2)
              | (None, w2) \<Rightarrow> notify w2)
           else if length (SystemVariables config) > 0 then (SystemVariablesIgnored, w1)
           else notify w1))"

text \<open>\<^verbatim>\<open>ioutil.ReadFile\<close>.\<close>

definition ReadFile :: "string \<Rightarrow> world \<Rightarrow> file_data option \<times> world" where
  "ReadFile path w = (files w path, emit (EvReadFile path) w)"

text \<open>\<^verbatim>\<open>applyEnvVars\<close>, the handler of the Apply button, on the selected path.\<close>

definition applyEnvVars :: "bool \<Rightarrow> string \<Rightarrow> world \<Rightarrow> apply_status \<times> world" where
  "applyEnvVars isAdmin selectedFilePath w =
     (if selectedFilePath = [] then (NoFileSelected, w)
      else if \<not> isValidYAMLFile selectedFilePath then (InvalidFileType, w)
      else
        (case ReadFile selectedFilePath w of
           (None, w1) \<Rightarrow> (ReadFileError selectedFilePath, w1)
         | (Some yamlFile, w1) \<Rightarrow>
             (case Unmarshal yamlFile of
                Inl err \<Rightarrow> (UnmarshalError err, w1)
              | Inr config \<Rightarrow> applyConfig isAdmin config w1)))"

section \<open>Exporting the registry\<close>

text \<open>
  Modelled from the spec: the same store opened for reading, the spec's EnumerateAll. The
  state of one key as \<^verbatim>\<open>readVariablesFromRegistry\<close> meets it: whether
  \<^verbatim>\<open>registry.OpenKey(hive, path, registry.READ)\<close> and \<^verbatim>\<open>key.ReadValueNames(-1)\<close>
  succeed, the names in the order they are listed, and the data under each name.
  \<^verbatim>\<open>key.GetStringValue\<close> fails on data that is no string.
\<close>

datatype reg_value = RegString string | RegOther

record reg_view =
  can_read :: bool
  can_list :: bool
  value_names :: "string list"
  value_data :: "string \<rightharpoonup> reg_value"

record registry =
  user_env :: reg_view
  system_env :: reg_view

fun view_of :: "hive \<Rightarrow> registry \<Rightarrow> reg_view" where
  "view_of CURRENT_USER r = user_env r"
| "view_of LOCAL_MACHINE r = system_env r"

definition GetStringValue :: "reg_view \<Rightarrow> string \<Rightarrow> reg_error + string" where
  "GetStringValue k name =
     (case value_data k name of
        None \<Rightarrow> Inl ErrNotExist
      | Some RegOther \<Rightarrow> Inl ErrOther
      | Some (RegString s) \<Rightarrow> Inr s)"

text \<open>
  The loop of \<^verbatim>\<open>readVariablesFromRegistry\<close>; \<open>variables\<close> is the slice appended to, a
  name whose value cannot be read is passed over (\<^verbatim>\<open>continue\<close>).
\<close>

fun read_values :: "reg_view \<Rightarrow> string list \<Rightarrow> Variable list \<Rightarrow> Variable list" where
  "read_values k [] variables = variables"
| "read_values k (name # names) variables =
     (case GetStringValue k name of
        Inl err \<Rightarrow> read_values k names variables
      | Inr val \<Rightarrow>
          read_values k names
            (variables @ [\<lparr>Name = name, Value = val, Operation = ''set''\<rparr>]))"

datatype read_error = OpenForReadError string string | ReadValueNamesError

definition readVariablesFromRegistry ::
  "hive \<Rightarrow> string \<Rightarrow> registry \<Rightarrow> read_error + Variable list" where
  "readVariablesFromRegistry h subkeyPath r =
     (if \<not> can_read (view_of h r) then Inl (OpenForReadError (hiveName h) subkeyPath)
      else if \<not> can_list (view_of h r) then Inl ReadValueNamesError
      else Inr (read_values (view_of h r) (value_names (view_of h r)) []))"

datatype export_error = ReadUserError read_error | ReadSystemError read_error

text \<open>\<^verbatim>\<open>exportEnvironmentVariables(isAdmin)\<close>.\<close>

definition exportEnvironmentVariables :: "bool \<Rightarrow> registry \<Rightarrow> export_error + Config" where
  "exportEnvironmentVariables isAdmin r =
     (case readVariablesFromRegistry CURRENT_USER userEnvironmentPath r of
        Inl err \<Rightarrow> Inl (ReadUserError err)
      | Inr us \<Rightarrow>
          (if isAdmin then
             (case readVariablesFromRegistry LOCAL_MACHINE systemEnvironmentPath r of
                Inl err \<Rightarrow> Inl (ReadSystemError err)
              | Inr ss \<Rightarrow> Inr \<lparr>UserVariables = us, SystemVariables = ss\<rparr>)
           else Inr \<lparr>UserVariables = us, SystemVariables = []\<rparr>))"

text \<open>\<^verbatim>\<open>saveConfigToFile\<close>: marshal, then \<^verbatim>\<open>ioutil.WriteFile\<close>; \<open>True\<close> is the nil error.\<close>

definition saveConfigToFile :: "Config \<Rightarrow> string \<Rightarrow> world \<Rightarrow> bool \<times> world" where
  "saveConfigToFile config filePath w =
     (let yamlData = Marshal config in
      if write_denied w filePath then (False, emit (EvWriteFile filePath) w)
      else (True, emit (EvWriteFile filePath) (w\<lparr>files := (files w)(filePath \<mapsto> yamlData)\<rparr>)))"

text \<open>What the save dialog returns: the "cancelled" error, another error, or a path.\<close>

datatype dialog_result = DialogCancelled | DialogFailed | DialogPath string

datatype export_status =
    ExportError export_error
  | ExportCancelled
  | SaveDialogError
  | WriteConfigError
  | ExportedTo string

text \<open>
  The extension step of the export handler:
  \<^verbatim>\<open>if !strings.HasSuffix(strings.ToLower(savePath), ".yaml") &&
        !strings.HasSuffix(strings.ToLower(savePath), ".yml") { savePath += ".yaml" }\<close>
\<close>

definition withYAMLExtension :: "string \<Rightarrow> string" where
  "withYAMLExtension savePath =
     (if \<not> HasSuffix (ToLower savePath) ''.yaml'' \<and> \<not> HasSuffix (ToLower savePath) ''.yml''
      then savePath @ ''.yaml'' else savePath)"

text \<open>The handler of the Export button.\<close>

definition exportButton ::
  "bool \<Rightarrow> registry \<Rightarrow> dialog_result \<Rightarrow> world \<Rightarrow> export_status \<times> world" where
  "exportButton isAdmin r dlg w =
     (case exportEnvironmentVariables isAdmin r of
        Inl err \<Rightarrow> (ExportError err, w)
      | Inr configToExport \<Rightarrow>
          (case dlg of
             DialogCancelled \<Rightarrow> (ExportCancelled, w)
           | DialogFailed \<Rightarrow> (SaveDialogError, w)
           | DialogPath savePath \<Rightarrow>
               (if savePath = [] then (ExportCancelled, w)
                else
                  (case saveConfigToFile configToExport (withYAMLExtension savePath) w of
                     (False, w') \<Rightarrow> (WriteConfigError, w')
                   | (True, w') \<Rightarrow> (ExportedTo (withYAMLExtension savePath), w')))))"

section \<open>Observations used in the statements\<close>

text \<open>The entry an outcome line is about, and whether the line reports a failure.\<close>

fun outcome_name :: "outcome \<Rightarrow> string" where
  "outcome_name (SetOk n v) = n"
| "outcome_name (SetFailed n v) = n"
| "outcome_name (DeleteOk n) = n"
| "outcome_name (AlreadyAbsent n) = n"
| "outcome_name (DeleteFailed n) = n"
| "outcome_name (UnknownOperation opn n) = n"

fun is_failure :: "outcome \<Rightarrow> bool" where
  "is_failure (SetFailed n v) = True"
| "is_failure (DeleteFailed n) = True"
| "is_failure (SetOk n v) = False"
| "is_failure (DeleteOk n) = False"
| "is_failure (AlreadyAbsent n) = False"
| "is_failure (UnknownOperation opn n) = False"

text \<open>The store call an entry asks for: none for an operation that is neither set nor delete.\<close>

definition store_call :: "hive \<Rightarrow> Variable \<Rightarrow> event list" where
  "store_call h v =
     (if Operation v = ''set'' then [EvSetValue h (Name v) (Value v)]
      else if Operation v = ''delete'' then [EvDeleteValue h (Name v)]
      else [])"

text \<open>The events and the lines that a run from \<open>w\<close> to \<open>w'\<close> has added.\<close>

definition new_trace :: "world \<Rightarrow> world \<Rightarrow> event list" where
  "new_trace w w' = drop (length (trace w)) (trace w')"

definition new_console :: "world \<Rightarrow> world \<Rightarrow> outcome list" where
  "new_console w w' = drop (length (console w)) (console w')"

fun on_hive :: "hive \<Rightarrow> event \<Rightarrow> bool" where
  "on_hive h (EvOpenKey h' p) = (h' = h)"
| "on_hive h (EvSetValue h' n v) = (h' = h)"
| "on_hive h (EvDeleteValue h' n) = (h' = h)"
| "on_hive h (EvReadFile p) = False"
| "on_hive h EvBroadcast = False"
| "on_hive h (EvWriteFile p) = False"

text \<open>The lines that the loop prints for a list of entries, started in \<open>w\<close>.\<close>

definition entry_lines :: "hive \<Rightarrow> Variable list \<Rightarrow> world \<Rightarrow> outcome list" where
  "entry_lines h vs w = new_console w (fold (apply_entry h) vs w)"

text \<open>
  What a list of entries should leave under a name and print, said without the loop. An
  entry is accepted when it is a set or a delete on a name the key does not turn down. The
  value under a name is that of the last accepted entry on it (the value of a set, nothing
  after a delete), or what the key held when no entry on it is accepted. The line of an
  entry follows from the entries before it: a set succeeds unless turned down, a delete
  finds the name absent, is turned down, or succeeds.
\<close>

definition accepted :: "reg_key \<Rightarrow> Variable \<Rightarrow> bool" where
  "accepted k v =
     ((Operation v = ''set'' \<or> Operation v = ''delete'') \<and> \<not> refused k (Name v))"

definition last_accepted :: "reg_key \<Rightarrow> Variable list \<Rightarrow> string \<Rightarrow> Variable option" where
  "last_accepted k vs n = find (\<lambda>v. Name v = n \<and> accepted k v) (rev vs)"

definition expected_vals :: "reg_key \<Rightarrow> Variable list \<Rightarrow> string \<rightharpoonup> string" where
  "expected_vals k vs n =
     (case last_accepted k vs n of
        None \<Rightarrow> vals k n
      | Some v \<Rightarrow> if Operation v = ''set'' then Some (Value v) else None)"

definition expected_line :: "reg_key \<Rightarrow> Variable list \<Rightarrow> Variable \<Rightarrow> outcome" where
  "expected_line k before v =
     (if Operation v = ''set'' then
        (if refused k (Name v) then SetFailed (Name v) (Value v)
         else SetOk (Name v) (Value v))
      else if Operation v = ''delete'' then
        (if expected_vals k before (Name v) = None then AlreadyAbsent (Name v)
         else if refused k (Name v) then DeleteFailed (Name v)
         else DeleteOk (Name v))
      else UnknownOperation (Operation v) (Name v))"

section \<open>Example states\<close>

definition open_key :: reg_key where
  "open_key = \<lparr>can_write = True, refused = (\<lambda>n. False), vals = Map.empty\<rparr>"

text \<open>A key that opens but turns down every write to the name \<open>LOCKED\<close>.\<close>

definition strict_key :: reg_key where
  "strict_key =
     \<lparr>can_write = True, refused = (\<lambda>n. n = ''LOCKED''), vals = [''LOCKED'' \<mapsto> ''old'']\<rparr>"

definition closed_key :: reg_key where
  "closed_key = \<lparr>can_write = False, refused = (\<lambda>n. False), vals = Map.empty\<rparr>"

definition set_FOO :: Variable where
  "set_FOO = \<lparr>Name = ''FOO'', Value = ''1'', Operation = ''set''\<rparr>"

definition delete_OLD :: Variable where
  "delete_OLD = \<lparr>Name = ''OLD'', Value = [], Operation = ''delete''\<rparr>"

definition set_LOCKED :: Variable where
  "set_LOCKED = \<lparr>Name = ''LOCKED'', Value = ''new'', Operation = ''set''\<rparr>"

definition frobnicate_X :: Variable where
  "frobnicate_X = \<lparr>Name = ''X'', Value = ''2'', Operation = ''frobnicate''\<rparr>"

definition set_JAVA_HOME :: Variable where
  "set_JAVA_HOME = \<lparr>Name = ''JAVA_HOME'', Value = ''jdk'', Operation = ''set''\<rparr>"

definition world_with :: "reg_key \<Rightarrow> reg_key \<Rightarrow> world" where
  "world_with u s =
     \<lparr>files = Map.empty, write_denied = (\<lambda>p. False), hkcu = u, hklm = s,
      broadcast_ok = True, trace = [], console = []\<rparr>"

definition demo_registry :: registry where
  "demo_registry =
     \<lparr>user_env = \<lparr>can_read = True, can_list = True, value_names = [''Path'', ''COUNT''],
                   value_data = [''Path'' \<mapsto> RegString ''C:/bin'', ''COUNT'' \<mapsto> RegOther]\<rparr>,
      system_env = \<lparr>can_read = True, can_list = True, value_names = [''OS''],
                     value_data = [''OS'' \<mapsto> RegString ''Windows_NT'']\<rparr>\<rparr>"

definition config_system_only :: Config where
  "config_system_only = \<lparr>UserVariables = [], SystemVariables = [set_JAVA_HOME]\<rparr>"

definition config_user_only :: Config where
  "config_user_only = \<lparr>UserVariables = [set_FOO, delete_OLD], SystemVariables = []\<rparr>"

definition config_locked :: Config where
  "config_locked = \<lparr>UserVariables = [set_LOCKED], SystemVariables = []\<rparr>"

definition config_both :: Config where
  "config_both =
     \<lparr>UserVariables = [set_FOO, set_LOCKED, delete_OLD], SystemVariables = [set_JAVA_HOME]\<rparr>"

definition config_clean :: Config where
  "config_clean = \<lparr>UserVariables = [set_FOO, delete_OLD], SystemVariables = [set_JAVA_HOME]\<rparr>"

definition demo_world :: world where
  "demo_world =
     \<lparr>files = [''cfg.yaml'' \<mapsto> Marshal config_user_only], write_denied = (\<lambda>p. False),
      hkcu = open_key, hklm = open_key, broadcast_ok = True, trace = [], console = []\<rparr>"

section \<open>Properties of the file-type guard\<close>

lemma of_char_lower_char:
  "(of_char (lower_char c) :: nat) =
     (if 65 \<le> (of_char c :: nat) \<and> (of_char c :: nat) \<le> 90 then of_char c + 32 else of_char c)"
  by (simp add: lower_char_def)

lemma lower_char_eq_iff:
  "lower_char c = d \<longleftrightarrow> (of_char (lower_char c) :: nat) = of_char d"
  by simp

lemma lower_char_dot: "lower_char c = CHR ''.'' \<longleftrightarrow> c = CHR ''.''"
proof -
  have "lower_char c = CHR ''.'' \<longleftrightarrow> (of_char (lower_char c) :: nat) = of_char (CHR ''.'')"
    by (simp only: of_char_eq_iff)
  also have "\<dots> \<longleftrightarrow> (of_char c :: nat) = of_char (CHR ''.'')"
    by (simp add: of_char_lower_char)
  also have "\<dots> \<longleftrightarrow> c = CHR ''.''"
    by (simp only: of_char_eq_iff)
  finally show ?thesis .
qed

lemma lower_char_letter:
  assumes "97 \<le> (of_char d :: nat)" and "lower_char c = d"
  shows "c \<noteq> CHR ''.'' \<and> \<not> IsPathSeparator c"
proof -
  have "(of_char (lower_char c) :: nat) = of_char d"
    using assms(2) by simp
  then have "(65 \<le> (of_char c :: nat) \<and> (of_char c :: nat) \<le> 90) \<or> 97 \<le> (of_char c :: nat)"
    using assms(1) by (simp add: of_char_lower_char split: if_splits)
  then show ?thesis
    by (auto simp: IsPathSeparator_def)
qed

lemma Ext_from_drop: "\<exists>j. Ext_from path i = drop j path"
proof (induction i)
  case 0
  have "Ext_from path 0 = drop (length path) path" by simp
  then show ?case by blast
next
  case (Suc i)
  then show ?case by auto
qed

lemma suffix_Ext: "suffix (Ext path) path"
  using Ext_from_drop [of path "length path"] by (auto simp: Ext_def suffix_drop)

lemma suffix_ToLower: "suffix a b \<Longrightarrow> suffix (ToLower a) (ToLower b)"
  by (auto simp: ToLower_def suffix_def)

lemma Ext_from_tail:
  "n \<le> length s \<Longrightarrow> \<forall>c \<in> set (take n s). c \<noteq> CHR ''.'' \<and> \<not> IsPathSeparator c \<Longrightarrow>
   Ext_from (q @ CHR ''.'' # s) (Suc (length q) + n) = CHR ''.'' # s"
proof (induction n)
  case 0
  then show ?case by (simp add: IsPathSeparator_def)
next
  case (Suc n)
  have nth: "(q @ CHR ''.'' # s) ! (Suc (length q) + n) = s ! n"
    by (simp add: nth_append)
  have "s ! n \<in> set (take (Suc n) s)"
    using Suc.prems(1) by (simp add: take_Suc_conv_app_nth)
  then have ok: "s ! n \<noteq> CHR ''.'' \<and> \<not> IsPathSeparator (s ! n)"
    using Suc.prems(2) by blast
  have "\<forall>c \<in> set (take n s). c \<noteq> CHR ''.'' \<and> \<not> IsPathSeparator c"
    using Suc.prems by (auto dest: in_set_takeD simp: take_Suc_conv_app_nth)
  then have IH: "Ext_from (q @ CHR ''.'' # s) (Suc (length q) + n) = CHR ''.'' # s"
    using Suc.IH Suc.prems(1) by simp
  have "Ext_from (q @ CHR ''.'' # s) (Suc (Suc (length q) + n)) =
        Ext_from (q @ CHR ''.'' # s) (Suc (length q) + n)"
    using ok nth by (simp del: add_Suc)
  then show ?case using IH by simp
qed

lemma Ext_dot_tail:
  "\<forall>c \<in> set s. c \<noteq> CHR ''.'' \<and> \<not> IsPathSeparator c \<Longrightarrow> Ext (q @ CHR ''.'' # s) = CHR ''.'' # s"
  using Ext_from_tail [of "length s" s q] by (simp add: Ext_def)

lemma ToLower_Ext_yaml:
  assumes "suffix ''.yaml'' (ToLower path)"
  shows "ToLower (Ext path) = ''.yaml''"
proof -
  from assms obtain xs where "map lower_char path = xs @ ''.yaml''"
    by (auto simp: suffix_def ToLower_def)
  then obtain q s where p: "path = q @ s" and s: "map lower_char s = ''.yaml''"
    by (auto simp: map_eq_append_conv)
  from s obtain c0 c1 c2 c3 c4 where sd: "s = [c0, c1, c2, c3, c4]"
    and l: "lower_char c0 = CHR ''.''" "lower_char c1 = CHR ''y''" "lower_char c2 = CHR ''a''"
      "lower_char c3 = CHR ''m''" "lower_char c4 = CHR ''l''"
    by (auto simp: map_eq_Cons_conv)
  have c0: "c0 = CHR ''.''" using l(1) by (simp add: lower_char_dot)
  have ok: "\<forall>c \<in> set [c1, c2, c3, c4]. c \<noteq> CHR ''.'' \<and> \<not> IsPathSeparator c"
    using lower_char_letter [OF _ l(2)] lower_char_letter [OF _ l(3)]
      lower_char_letter [OF _ l(4)] lower_char_letter [OF _ l(5)] by simp
  have "Ext path = CHR ''.'' # [c1, c2, c3, c4]"
    unfolding p sd c0 using Ext_dot_tail [OF ok, of q] by simp
  then show ?thesis using s sd c0 by (simp add: ToLower_def)
qed

lemma ToLower_Ext_yml:
  assumes "suffix ''.yml'' (ToLower path)"
  shows "ToLower (Ext path) = ''.yml''"
proof -
  from assms obtain xs where "map lower_char path = xs @ ''.yml''"
    by (auto simp: suffix_def ToLower_def)
  then obtain q s where p: "path = q @ s" and s: "map lower_char s = ''.yml''"
    by (auto simp: map_eq_append_conv)
  from s obtain c0 c1 c2 c3 where sd: "s = [c0, c1, c2, c3]"
    and l: "lower_char c0 = CHR ''.''" "lower_char c1 = CHR ''y''" "lower_char c2 = CHR ''m''"
      "lower_char c3 = CHR ''l''"
    by (auto simp: map_eq_Cons_conv)
  have c0: "c0 = CHR ''.''" using l(1) by (simp add: lower_char_dot)
  have ok: "\<forall>c \<in> set [c1, c2, c3]. c \<noteq> CHR ''.'' \<and> \<not> IsPathSeparator c"
    using lower_char_letter [OF _ l(2)] lower_char_letter [OF _ l(3)]
      lower_char_letter [OF _ l(4)] by simp
  have "Ext path = CHR ''.'' # [c1, c2, c3]"
    unfolding p sd c0 using Ext_dot_tail [OF ok, of q] by simp
  then show ?thesis using s sd c0 by (simp add: ToLower_def)
qed

lemma isValidYAMLFile_iff:
  "isValidYAMLFile path \<longleftrightarrow>
     HasSuffix (ToLower path) ''.yaml'' \<or> HasSuffix (ToLower path) ''.yml''"
proof
  assume "isValidYAMLFile path"
  then have "ToLower (Ext path) = ''.yaml'' \<or> ToLower (Ext path) = ''.yml''"
    by (simp add: isValidYAMLFile_def Let_def)
  then show "HasSuffix (ToLower path) ''.yaml'' \<or> HasSuffix (ToLower path) ''.yml''"
    using suffix_ToLower [OF suffix_Ext, of path] by (auto simp: HasSuffix_def)
next
  assume "HasSuffix (ToLower path) ''.yaml'' \<or> HasSuffix (ToLower path) ''.yml''"
  then show "isValidYAMLFile path"
    using ToLower_Ext_yaml ToLower_Ext_yml by (auto simp: HasSuffix_def isValidYAMLFile_def Let_def)
qed

section \<open>The loop of applyVariables, step by step\<close>

lemma key_of_put_key: "key_of h' (put_key h k w) = (if h' = h then k else key_of h' w)"
  by (cases h; cases h') simp_all

lemma key_of_emit [simp]: "key_of h (emit e w) = key_of h w"
  by (cases h) (simp_all add: emit_def)

lemma key_of_print [simp]: "key_of h (print out w) = key_of h w"
  by (cases h) (simp_all add: print_def)

lemma trace_put_key [simp]: "trace (put_key h k w) = trace w"
  by (cases h) simp_all

lemma console_put_key [simp]: "console (put_key h k w) = console w"
  by (cases h) simp_all

lemma trace_emit [simp]: "trace (emit e w) = trace w @ [e]"
  by (simp add: emit_def)

lemma trace_print [simp]: "trace (print out w) = trace w"
  by (simp add: print_def)

lemma console_emit [simp]: "console (emit e w) = console w"
  by (simp add: emit_def)

lemma console_print [simp]: "console (print out w) = console w @ [out]"
  by (simp add: print_def)

lemma trace_apply_entry: "trace (apply_entry h v w) = trace w @ store_call h v"
  by (simp add: apply_entry_def store_call_def SetStringValue_def DeleteValue_def
      split: prod.splits option.splits reg_error.splits)

lemma console_apply_entry:
  "\<exists>out. console (apply_entry h v w) = console w @ [out] \<and> outcome_name out = Name v"
  by (simp add: apply_entry_def SetStringValue_def DeleteValue_def
      split: prod.splits option.splits reg_error.splits)

lemma vals_delete_absent: "vals k n = None \<Longrightarrow> k\<lparr>vals := (vals k)(n := None)\<rparr> = k"
  by (simp add: fun_upd_idem)

lemma key_apply_entry:
  "key_of h (apply_entry h v w) =
     (if Operation v = ''set'' \<and> \<not> refused (key_of h w) (Name v)
      then (key_of h w)\<lparr>vals := (vals (key_of h w))(Name v \<mapsto> Value v)\<rparr>
      else if Operation v = ''delete'' \<and> \<not> refused (key_of h w) (Name v)
      then (key_of h w)\<lparr>vals := (vals (key_of h w))(Name v := None)\<rparr>
      else key_of h w)"
  by (auto simp: apply_entry_def SetStringValue_def DeleteValue_def key_of_put_key
      vals_delete_absent split: prod.splits option.splits reg_error.splits)

lemma other_key_apply_entry: "h' \<noteq> h \<Longrightarrow> key_of h' (apply_entry h v w) = key_of h' w"
  by (simp add: apply_entry_def SetStringValue_def DeleteValue_def key_of_put_key
      split: prod.splits option.splits reg_error.splits)


lemma frame_apply_entry:
  "files (apply_entry h v w) = files w \<and> write_denied (apply_entry h v w) = write_denied w \<and>
   broadcast_ok (apply_entry h v w) = broadcast_ok w"
  by (cases h) (simp_all add: apply_entry_def SetStringValue_def DeleteValue_def print_def emit_def
      split: prod.splits option.splits reg_error.splits)

lemma trace_fold_apply_entry:
  "trace (fold (apply_entry h) vs w) = trace w @ concat (map (store_call h) vs)"
  by (induction vs arbitrary: w) (simp_all add: trace_apply_entry)

lemma console_fold_apply_entry:
  "\<exists>outs. console (fold (apply_entry h) vs w) = console w @ outs \<and>
     map outcome_name outs = map Name vs"
proof (induction vs arbitrary: w)
  case Nil
  then show ?case by simp
next
  case (Cons v vs)
  obtain out where o: "console (apply_entry h v w) = console w @ [out]" "outcome_name out = Name v"
    using console_apply_entry by blast
  obtain outs where os: "console (fold (apply_entry h) vs (apply_entry h v w)) =
      console (apply_entry h v w) @ outs" "map outcome_name outs = map Name vs"
    using Cons.IH by blast
  have "console (fold (apply_entry h) (v # vs) w) = console w @ (out # outs)"
    using o os by simp
  moreover have "map outcome_name (out # outs) = map Name (v # vs)"
    using o os by simp
  ultimately show ?case by blast
qed

lemma other_key_fold: "h' \<noteq> h \<Longrightarrow> key_of h' (fold (apply_entry h) vs w) = key_of h' w"
  by (induction vs arbitrary: w) (simp_all add: other_key_apply_entry)

lemma frame_fold:
  "files (fold (apply_entry h) vs w) = files w \<and>
   write_denied (fold (apply_entry h) vs w) = write_denied w \<and>
   broadcast_ok (fold (apply_entry h) vs w) = broadcast_ok w"
  by (induction vs arbitrary: w) (simp_all add: frame_apply_entry)

lemma perm_apply_entry:
  "can_write (key_of h' (apply_entry h v w)) = can_write (key_of h' w) \<and>
   refused (key_of h' (apply_entry h v w)) = refused (key_of h' w)"
  by (cases "h' = h") (simp_all add: key_apply_entry other_key_apply_entry)

lemma perm_fold:
  "can_write (key_of h' (fold (apply_entry h) vs w)) = can_write (key_of h' w) \<and>
   refused (key_of h' (fold (apply_entry h) vs w)) = refused (key_of h' w)"
  by (induction vs arbitrary: w) (simp_all add: perm_apply_entry)

section \<open>Guard, export, round trip and the loop\<close>

lemma ToLower_append: "ToLower (a @ b) = ToLower a @ ToLower b"
  by (simp add: ToLower_def)

lemma ToLower_yaml: "ToLower ''.yaml'' = ''.yaml''"
  by code_simp

lemma isValidYAMLFile_withYAMLExtension: "isValidYAMLFile (withYAMLExtension savePath)"
proof (cases "HasSuffix (ToLower savePath) ''.yaml'' \<or> HasSuffix (ToLower savePath) ''.yml''")
  case True
  then show ?thesis
    by (auto simp: withYAMLExtension_def isValidYAMLFile_iff)
next
  case False
  have "HasSuffix (ToLower (savePath @ ''.yaml'')) ''.yaml''"
    unfolding ToLower_append ToLower_yaml HasSuffix_def by (rule suffix_appendI) simp
  then show ?thesis
    using False by (simp add: withYAMLExtension_def isValidYAMLFile_iff)
qed

lemma new_trace_same [simp]: "new_trace w w = []"
  by (simp add: new_trace_def)

lemma new_trace_append: "trace w' = trace w @ evs \<Longrightarrow> new_trace w w' = evs"
  by (simp add: new_trace_def)

lemma new_console_append: "console w' = console w @ outs \<Longrightarrow> new_console w w' = outs"
  by (simp add: new_console_def)

lemma not_valid_cfg_txt: "\<not> isValidYAMLFile ''cfg.txt''"
  by code_simp

lemma not_valid_cfg: "\<not> isValidYAMLFile ''cfg''"
  by code_simp

text \<open>
  Claim C6. \<open>isValidYAMLFile\<close> accepts a path exactly when, letters lowered, it ends in
  \<open>.yaml\<close> or \<open>.yml\<close>: \<open>cfg.YML\<close> and \<open>cfg.yaml\<close> pass, \<open>cfg.txt\<close> and \<open>cfg\<close> are turned
  down with the invalid-file-type error. A path that is turned down leaves the world as it
  was: nothing is added to the trace, so no file has been read.
\<close>
theorem extension_guard:
  "(isValidYAMLFile path \<longleftrightarrow>
      HasSuffix (ToLower path) ''.yaml'' \<or> HasSuffix (ToLower path) ''.yml'') \<and>
   isValidYAMLFile ''cfg.YML'' \<and> isValidYAMLFile ''cfg.yaml'' \<and>
   applyEnvVars isAdmin ''cfg.txt'' w = (InvalidFileType, w) \<and>
   applyEnvVars isAdmin ''cfg'' w = (InvalidFileType, w) \<and>
   (\<not> isValidYAMLFile path \<longrightarrow>
      snd (applyEnvVars isAdmin path w) = w \<and>
      new_trace w (snd (applyEnvVars isAdmin path w)) = [] \<and>
      (path \<noteq> [] \<longrightarrow> fst (applyEnvVars isAdmin path w) = InvalidFileType))"
proof -
  have a: "isValidYAMLFile ''cfg.YML''" by code_simp
  have b: "isValidYAMLFile ''cfg.yaml''" by code_simp
  have c: "applyEnvVars isAdmin ''cfg.txt'' w = (InvalidFileType, w)"
    using not_valid_cfg_txt by (simp add: applyEnvVars_def)
  have d: "applyEnvVars isAdmin ''cfg'' w = (InvalidFileType, w)"
    using not_valid_cfg by (simp add: applyEnvVars_def)
  have e: "\<not> isValidYAMLFile path \<longrightarrow>
      snd (applyEnvVars isAdmin path w) = w \<and>
      new_trace w (snd (applyEnvVars isAdmin path w)) = [] \<and>
      (path \<noteq> [] \<longrightarrow> fst (applyEnvVars isAdmin path w) = InvalidFileType)"
    by (simp add: applyEnvVars_def)
  show ?thesis
    using isValidYAMLFile_iff [of path] a b c d e by blast
qed

theorem extension_guard_witness:
  "\<not> isValidYAMLFile ''notes.Yaml.bak'' \<and>
   applyEnvVars False ''notes.Yaml.bak'' (world_with open_key open_key) =
     (InvalidFileType, world_with open_key open_key)"
proof -
  have r: "\<not> isValidYAMLFile ''notes.Yaml.bak''" by code_simp
  have "fst (applyEnvVars False ''notes.Yaml.bak'' (world_with open_key open_key)) = InvalidFileType"
    and "snd (applyEnvVars False ''notes.Yaml.bak'' (world_with open_key open_key)) =
      world_with open_key open_key"
    using r extension_guard [of "''notes.Yaml.bak''" False "world_with open_key open_key"]
    by simp_all
  then show ?thesis using r by (simp add: prod_eq_iff)
qed


lemma exportButton_trace:
  "new_trace w (snd (exportButton isAdmin r dlg w)) = [] \<or>
   (\<exists>savePath. dlg = DialogPath savePath \<and>
      new_trace w (snd (exportButton isAdmin r dlg w)) = [EvWriteFile (withYAMLExtension savePath)])"
  by (cases dlg)
    (auto simp: exportButton_def saveConfigToFile_def new_trace_def emit_def Let_def
      split: sum.splits)

lemma exportButton_exported:
  assumes "fst (exportButton isAdmin r (DialogPath savePath) w) = ExportedTo p"
  shows "p = withYAMLExtension savePath \<and>
     new_trace w (snd (exportButton isAdmin r (DialogPath savePath) w)) = [EvWriteFile p] \<and>
     (\<exists>c. exportEnvironmentVariables isAdmin r = Inr c \<and>
        files (snd (exportButton isAdmin r (DialogPath savePath) w)) p = Some (Marshal c))"
  using assms
  by (auto simp: exportButton_def saveConfigToFile_def new_trace_def emit_def Let_def
      split: sum.splits if_splits)

text \<open>
  Claim C10. A save path that does not end in \<open>.yaml\<close> or \<open>.yml\<close> (letters lowered) gets
  \<open>.yaml\<close> appended, any other path is kept; the result always passes the file-type guard,
  and the only file the export handler ever writes is the one at that path.
\<close>
theorem export_path_extension:
  "withYAMLExtension savePath =
     (if HasSuffix (ToLower savePath) ''.yaml'' \<or> HasSuffix (ToLower savePath) ''.yml''
      then savePath else savePath @ ''.yaml'') \<and>
   isValidYAMLFile (withYAMLExtension savePath) \<and>
   (HasSuffix (ToLower (withYAMLExtension savePath)) ''.yaml'' \<or>
    HasSuffix (ToLower (withYAMLExtension savePath)) ''.yml'') \<and>
   (\<forall>e \<in> set (new_trace w (snd (exportButton isAdmin r dlg w))).
      \<exists>q. e = EvWriteFile q \<and> isValidYAMLFile q) \<and>
   (fst (exportButton isAdmin r (DialogPath savePath) w) = ExportedTo p \<longrightarrow>
      p = withYAMLExtension savePath \<and>
      new_trace w (snd (exportButton isAdmin r (DialogPath savePath) w)) = [EvWriteFile p] \<and>
      files (snd (exportButton isAdmin r (DialogPath savePath) w)) p \<noteq> None)"
proof -
  have a: "withYAMLExtension savePath =
     (if HasSuffix (ToLower savePath) ''.yaml'' \<or> HasSuffix (ToLower savePath) ''.yml''
      then savePath else savePath @ ''.yaml'')"
    by (simp add: withYAMLExtension_def)
  have b: "isValidYAMLFile (withYAMLExtension savePath)"
    by (rule isValidYAMLFile_withYAMLExtension)
  have c: "HasSuffix (ToLower (withYAMLExtension savePath)) ''.yaml'' \<or>
    HasSuffix (ToLower (withYAMLExtension savePath)) ''.yml''"
    using b by (simp add: isValidYAMLFile_iff)
  have d: "\<forall>e \<in> set (new_trace w (snd (exportButton isAdmin r dlg w))).
      \<exists>q. e = EvWriteFile q \<and> isValidYAMLFile q"
    using exportButton_trace [of w isAdmin r dlg] isValidYAMLFile_withYAMLExtension by auto
  have e: "fst (exportButton isAdmin r (DialogPath savePath) w) = ExportedTo p \<longrightarrow>
      p = withYAMLExtension savePath \<and>
      new_trace w (snd (exportButton isAdmin r (DialogPath savePath) w)) = [EvWriteFile p] \<and>
      files (snd (exportButton isAdmin r (DialogPath savePath) w)) p \<noteq> None"
    using exportButton_exported [of isAdmin r savePath w p] by auto
  show ?thesis using a b c d e by blast
qed


lemma withYAMLExtension_backup: "withYAMLExtension ''backup'' = ''backup.yaml''"
  by code_simp

lemma export_demo_user:
  "exportEnvironmentVariables False demo_registry =
     Inr \<lparr>UserVariables = [\<lparr>Name = ''Path'', Value = ''C:/bin'', Operation = ''set''\<rparr>],
          SystemVariables = []\<rparr>"
  by (simp add: exportEnvironmentVariables_def readVariablesFromRegistry_def demo_registry_def
      GetStringValue_def)

lemma export_demo_admin:
  "exportEnvironmentVariables True demo_registry =
     Inr \<lparr>UserVariables = [\<lparr>Name = ''Path'', Value = ''C:/bin'', Operation = ''set''\<rparr>],
          SystemVariables = [\<lparr>Name = ''OS'', Value = ''Windows_NT'', Operation = ''set''\<rparr>]\<rparr>"
  by (simp add: exportEnvironmentVariables_def readVariablesFromRegistry_def demo_registry_def
      GetStringValue_def)

theorem export_path_extension_witness:
  "fst (exportButton False demo_registry (DialogPath ''backup'') (world_with open_key open_key)) =
     ExportedTo ''backup.yaml'' \<and>
   new_trace (world_with open_key open_key)
     (snd (exportButton False demo_registry (DialogPath ''backup'') (world_with open_key open_key))) =
     [EvWriteFile ''backup.yaml'']"
proof -
  have st: "fst (exportButton False demo_registry (DialogPath ''backup'')
      (world_with open_key open_key)) = ExportedTo ''backup.yaml''"
    by (simp add: exportButton_def export_demo_user withYAMLExtension_backup saveConfigToFile_def
        world_with_def)
  show ?thesis
    using st export_path_extension [of "''backup''" "world_with open_key open_key" False
        demo_registry "DialogPath ''backup''" "''backup.yaml''"]
    by simp
qed

lemma read_values_only_set:
  "\<forall>v \<in> set variables. Operation v = ''set'' \<Longrightarrow>
   \<forall>v \<in> set (read_values k names variables). Operation v = ''set''"
proof (induction names arbitrary: variables)
  case Nil
  then show ?case by simp
next
  case (Cons name names)
  show ?case
  proof (cases "GetStringValue k name")
    case (Inl err)
    then show ?thesis using Cons.IH [OF Cons.prems] by simp
  next
    case (Inr val)
    have h: "\<forall>v \<in> set (variables @ [\<lparr>Name = name, Value = val, Operation = ''set''\<rparr>]).
        Operation v = ''set''"
      using Cons.prems by simp
    show ?thesis using Cons.IH [OF h] Inr by simp
  qed
qed

lemma readVariablesFromRegistry_only_set:
  "readVariablesFromRegistry h p r = Inr vs \<Longrightarrow> \<forall>v \<in> set vs. Operation v = ''set''"
  using read_values_only_set [of "[]"]
  by (auto simp: readVariablesFromRegistry_def split: if_splits)

text \<open>
  Claim C9. Whatever the registry holds and whether or not the program runs as
  administrator, every variable of an exported configuration, and so of the file written
  from it, has the operation \<open>set\<close>.
\<close>
theorem export_only_set:
  "(exportEnvironmentVariables isAdmin r = Inr c \<longrightarrow>
      (\<forall>v \<in> set (UserVariables c) \<union> set (SystemVariables c). Operation v = ''set'')) \<and>
   (fst (exportButton isAdmin r dlg w) = ExportedTo p \<longrightarrow>
      (\<exists>c. files (snd (exportButton isAdmin r dlg w)) p = Some (Marshal c) \<and>
         (\<forall>v \<in> set (UserVariables c) \<union> set (SystemVariables c). Operation v = ''set'')))"
proof -
  have a: "\<forall>v \<in> set (UserVariables c) \<union> set (SystemVariables c). Operation v = ''set''"
    if "exportEnvironmentVariables isAdmin r = Inr c" for c
    using that readVariablesFromRegistry_only_set
    by (auto simp: exportEnvironmentVariables_def split: sum.splits if_splits)
  have b: "\<exists>c. exportEnvironmentVariables isAdmin r = Inr c \<and>
      files (snd (exportButton isAdmin r dlg w)) p = Some (Marshal c)"
    if "fst (exportButton isAdmin r dlg w) = ExportedTo p"
    using that
    by (cases dlg)
      (auto simp: exportButton_def saveConfigToFile_def emit_def Let_def
        split: sum.splits if_splits)
  show ?thesis using a b by blast
qed

theorem export_only_set_witness:
  "exportEnvironmentVariables True demo_registry =
     Inr \<lparr>UserVariables = [\<lparr>Name = ''Path'', Value = ''C:/bin'', Operation = ''set''\<rparr>],
          SystemVariables = [\<lparr>Name = ''OS'', Value = ''Windows_NT'', Operation = ''set''\<rparr>]\<rparr> \<and>
   map Operation
     (UserVariables
        \<lparr>UserVariables = [\<lparr>Name = ''Path'', Value = ''C:/bin'', Operation = ''set''\<rparr>],
          SystemVariables = [\<lparr>Name = ''OS'', Value = ''Windows_NT'', Operation = ''set''\<rparr>]\<rparr> @
      SystemVariables
        \<lparr>UserVariables = [\<lparr>Name = ''Path'', Value = ''C:/bin'', Operation = ''set''\<rparr>],
          SystemVariables = [\<lparr>Name = ''OS'', Value = ''Windows_NT'', Operation = ''set''\<rparr>]\<rparr>) =
     [''set'', ''set'']"
  using export_only_set [of True demo_registry
      "\<lparr>UserVariables = [\<lparr>Name = ''Path'', Value = ''C:/bin'', Operation = ''set''\<rparr>],
        SystemVariables = [\<lparr>Name = ''OS'', Value = ''Windows_NT'', Operation = ''set''\<rparr>]\<rparr>"]
    export_demo_admin
  by simp

lemma unmarshal_marshal_Variable: "unmarshal_Variable (marshal_Variable v) = Inr (v :: Variable)"
  by (simp add: marshal_Variable_def zero_Variable_def)

lemma unmarshal_each_marshal:
  "unmarshal_each (map marshal_Variable vs) = Inr (vs :: Variable list)"
  by (induction vs) (simp_all add: unmarshal_marshal_Variable)

lemma Unmarshal_Marshal: "Unmarshal (Marshal c) = Inr (c :: Config)"
  by (simp add: Marshal_def zero_Config_def unmarshal_each_marshal)

text \<open>
  Claim C4. Marshalling a configuration and unmarshalling the result gives the
  configuration back: both lists, in order, with every name, value and operation. The
  same holds through the file that \<open>saveConfigToFile\<close> writes and \<open>ReadFile\<close> reads.
\<close>
theorem config_round_trip:
  "Unmarshal (Marshal c) = Inr (c :: Config) \<and>
   (fst (saveConfigToFile c filePath w) \<longrightarrow>
      (\<exists>yamlFile. fst (ReadFile filePath (snd (saveConfigToFile c filePath w))) = Some yamlFile \<and>
         Unmarshal yamlFile = Inr c))"
  by (simp add: Unmarshal_Marshal saveConfigToFile_def ReadFile_def emit_def Let_def)

theorem config_round_trip_witness:
  "fst (saveConfigToFile \<lparr>UserVariables = [set_FOO, delete_OLD], SystemVariables = [frobnicate_X]\<rparr>
          ''out.yaml'' (world_with open_key open_key)) \<and>
   (\<exists>yamlFile.
      fst (ReadFile ''out.yaml''
            (snd (saveConfigToFile \<lparr>UserVariables = [set_FOO, delete_OLD],
                     SystemVariables = [frobnicate_X]\<rparr> ''out.yaml''
                   (world_with open_key open_key)))) = Some yamlFile \<and>
      Unmarshal yamlFile =
        Inr \<lparr>UserVariables = [set_FOO, delete_OLD], SystemVariables = [frobnicate_X]\<rparr>)"
proof -
  have ok: "fst (saveConfigToFile \<lparr>UserVariables = [set_FOO, delete_OLD],
      SystemVariables = [frobnicate_X]\<rparr> ''out.yaml'' (world_with open_key open_key))"
    by (simp add: saveConfigToFile_def world_with_def)
  show ?thesis
    using ok config_round_trip [of "\<lparr>UserVariables = [set_FOO, delete_OLD],
      SystemVariables = [frobnicate_X]\<rparr>" "''out.yaml''" "world_with open_key open_key"]
    by blast
qed



lemma new_console_fold:
  "map outcome_name (new_console w (fold (apply_entry h) vs w)) = map Name vs"
  using console_fold_apply_entry [of h vs w] by (auto simp: new_console_def)


lemma applyVariables_closed:
  "\<not> can_write (key_of h w) \<Longrightarrow>
   applyVariables vs h p w = (Some (StoreAccessError (hiveName h) p), emit (EvOpenKey h p) w)"
  by (simp add: applyVariables_def)

lemma new_trace_applyVariables:
  "new_trace w (snd (applyVariables vs h p w)) =
     EvOpenKey h p # (if can_write (key_of h w) then concat (map (store_call h) vs) else [])"
  by (simp add: applyVariables_def new_trace_def trace_fold_apply_entry)

lemma new_console_applyVariables:
  "can_write (key_of h w) \<Longrightarrow>
   map outcome_name (new_console w (snd (applyVariables vs h p w))) = map Name vs"
  using new_console_fold [of "emit (EvOpenKey h p) w" h vs]
  by (simp add: applyVariables_def new_console_def)

lemma apply_entry_unknown:
  "Operation v \<noteq> ''set'' \<Longrightarrow> Operation v \<noteq> ''delete'' \<Longrightarrow>
   apply_entry h v w = print (UnknownOperation (Operation v) (Name v)) w"
  by (simp add: apply_entry_def)

text \<open>
  Claim C5. An entry whose operation is neither \<open>set\<close> nor \<open>delete\<close> only prints the
  unknown-operation line: no store call, both keys untouched. It decodes without error,
  and in a list the entries before and after it are all processed.
\<close>
theorem unknown_operation_skipped:
  assumes "Operation v \<noteq> ''set''" and "Operation v \<noteq> ''delete''"
  shows "apply_entry h v w = print (UnknownOperation (Operation v) (Name v)) w \<and>
    new_trace w (apply_entry h v w) = [] \<and>
    hkcu (apply_entry h v w) = hkcu w \<and> hklm (apply_entry h v w) = hklm w \<and>
    new_console w (apply_entry h v w) = [UnknownOperation (Operation v) (Name v)] \<and>
    unmarshal_Variable (marshal_Variable v) = Inr (v :: Variable) \<and>
    (can_write (key_of h w) \<longrightarrow>
       fst (applyVariables (xs @ v # ys) h p w) = None \<and>
       new_trace w (snd (applyVariables (xs @ v # ys) h p w)) =
         EvOpenKey h p # concat (map (store_call h) xs) @ concat (map (store_call h) ys) \<and>
       map outcome_name (new_console w (snd (applyVariables (xs @ v # ys) h p w))) =
         map Name xs @ Name v # map Name ys)"
proof -
  have e: "apply_entry h v w = print (UnknownOperation (Operation v) (Name v)) w"
    using assms by (rule apply_entry_unknown)
  have t: "new_trace w (apply_entry h v w) = []"
    unfolding e by (simp add: new_trace_def)
  have k: "hkcu (apply_entry h v w) = hkcu w \<and> hklm (apply_entry h v w) = hklm w"
    unfolding e by (simp add: print_def)
  have c: "new_console w (apply_entry h v w) = [UnknownOperation (Operation v) (Name v)]"
    unfolding e by (simp add: new_console_def)
  have u: "unmarshal_Variable (marshal_Variable v) = Inr v"
    by (rule unmarshal_marshal_Variable)
  have sc: "store_call h v = []"
    using assms by (simp add: store_call_def)
  have l: "can_write (key_of h w) \<longrightarrow>
       fst (applyVariables (xs @ v # ys) h p w) = None \<and>
       new_trace w (snd (applyVariables (xs @ v # ys) h p w)) =
         EvOpenKey h p # concat (map (store_call h) xs) @ concat (map (store_call h) ys) \<and>
       map outcome_name (new_console w (snd (applyVariables (xs @ v # ys) h p w))) =
         map Name xs @ Name v # map Name ys"
  proof
    assume cw: "can_write (key_of h w)"
    have l1: "fst (applyVariables (xs @ v # ys) h p w) = None"
      using cw by (simp add: applyVariables_def)
    have l2: "new_trace w (snd (applyVariables (xs @ v # ys) h p w)) =
         EvOpenKey h p # concat (map (store_call h) xs) @ concat (map (store_call h) ys)"
      unfolding new_trace_applyVariables using cw sc by simp
    have l3: "map outcome_name (new_console w (snd (applyVariables (xs @ v # ys) h p w))) =
         map Name xs @ Name v # map Name ys"
      unfolding new_console_applyVariables [OF cw] by simp
    show "fst (applyVariables (xs @ v # ys) h p w) = None \<and>
       new_trace w (snd (applyVariables (xs @ v # ys) h p w)) =
         EvOpenKey h p # concat (map (store_call h) xs) @ concat (map (store_call h) ys) \<and>
       map outcome_name (new_console w (snd (applyVariables (xs @ v # ys) h p w))) =
         map Name xs @ Name v # map Name ys"
      using l1 l2 l3 by blast
  qed
  show ?thesis using e t k c u l by blast
qed

theorem unknown_operation_skipped_witness:
  "Operation frobnicate_X \<noteq> ''set'' \<and> Operation frobnicate_X \<noteq> ''delete'' \<and>
   can_write (key_of CURRENT_USER (world_with open_key open_key)) \<and>
   new_trace (world_with open_key open_key)
     (snd (applyVariables ([set_FOO] @ frobnicate_X # [delete_OLD]) CURRENT_USER
        userEnvironmentPath (world_with open_key open_key))) =
     [EvOpenKey CURRENT_USER userEnvironmentPath, EvSetValue CURRENT_USER ''FOO'' ''1'',
      EvDeleteValue CURRENT_USER ''OLD''] \<and>
   map outcome_name (new_console (world_with open_key open_key)
     (snd (applyVariables ([set_FOO] @ frobnicate_X # [delete_OLD]) CURRENT_USER
        userEnvironmentPath (world_with open_key open_key)))) = [''FOO'', ''X'', ''OLD'']"
proof -
  have a: "Operation frobnicate_X \<noteq> ''set''" "Operation frobnicate_X \<noteq> ''delete''"
    by (simp_all add: frobnicate_X_def)
  have b: "can_write (key_of CURRENT_USER (world_with open_key open_key))"
    by (simp add: world_with_def open_key_def)
  show ?thesis
    using a b unknown_operation_skipped [OF a, of CURRENT_USER "world_with open_key open_key"
        "[set_FOO]" "[delete_OLD]" userEnvironmentPath]
    by (simp add: store_call_def set_FOO_def delete_OLD_def frobnicate_X_def)
qed



section \<open>Whole runs\<close>

lemma broadcast_not_store_call: "EvBroadcast \<notin> set (concat (map (store_call h) vs))"
  by (auto simp: store_call_def)

lemma count_broadcast_store_calls: "count_list (concat (map (store_call h) vs)) EvBroadcast = 0"
  using broadcast_not_store_call by (simp add: count_list_0_iff)

lemma on_hive_store_call:
  "filter (on_hive h') (store_call h v) = (if h' = h then store_call h v else [])"
  by (simp add: store_call_def)

lemma on_hive_store_calls:
  "filter (on_hive h') (concat (map (store_call h) vs)) =
     (if h' = h then concat (map (store_call h) vs) else [])"
  by (induction vs) (simp_all add: on_hive_store_call)

lemma can_write_after_user:
  "can_write (key_of h' (fold (apply_entry h) vs (emit e w))) = can_write (key_of h' w)"
  by (simp add: perm_fold)

lemma notify_eq:
  "notify w = (if broadcast_ok w then AppliedSuccessfully else BroadcastError, emit EvBroadcast w)"
  by (simp add: notify_def broadcastSettingChange_def)

text \<open>The five ways through applyConfig.\<close>

lemma applyConfig_user_closed:
  "\<not> can_write (hkcu w) \<Longrightarrow>
   applyConfig isAdmin c w =
     (ApplyUserError (StoreAccessError ''HKEY_CURRENT_USER'' userEnvironmentPath),
      emit (EvOpenKey CURRENT_USER userEnvironmentPath) w)"
  by (simp add: applyConfig_def applyVariables_def)

lemma applyConfig_system_closed:
  "can_write (hkcu w) \<Longrightarrow> isAdmin \<Longrightarrow> \<not> can_write (hklm w) \<Longrightarrow>
   applyConfig isAdmin c w =
     (ApplySystemError (StoreAccessError ''HKEY_LOCAL_MACHINE'' systemEnvironmentPath),
      emit (EvOpenKey LOCAL_MACHINE systemEnvironmentPath)
        (fold (apply_entry CURRENT_USER) (UserVariables c)
           (emit (EvOpenKey CURRENT_USER userEnvironmentPath) w)))"
  using can_write_after_user [of LOCAL_MACHINE CURRENT_USER]
  by (simp add: applyConfig_def applyVariables_def)

lemma applyConfig_admin:
  "can_write (hkcu w) \<Longrightarrow> isAdmin \<Longrightarrow> can_write (hklm w) \<Longrightarrow>
   applyConfig isAdmin c w =
     notify (fold (apply_entry LOCAL_MACHINE) (SystemVariables c)
       (emit (EvOpenKey LOCAL_MACHINE systemEnvironmentPath)
          (fold (apply_entry CURRENT_USER) (UserVariables c)
             (emit (EvOpenKey CURRENT_USER userEnvironmentPath) w))))"
  using can_write_after_user [of LOCAL_MACHINE CURRENT_USER]
  by (simp add: applyConfig_def applyVariables_def)

lemma applyConfig_ignored:
  "can_write (hkcu w) \<Longrightarrow> \<not> isAdmin \<Longrightarrow> SystemVariables c \<noteq> [] \<Longrightarrow>
   applyConfig isAdmin c w =
     (SystemVariablesIgnored,
      fold (apply_entry CURRENT_USER) (UserVariables c)
        (emit (EvOpenKey CURRENT_USER userEnvironmentPath) w))"
  by (simp add: applyConfig_def applyVariables_def)

lemma applyConfig_user_only:
  "can_write (hkcu w) \<Longrightarrow> \<not> isAdmin \<Longrightarrow> SystemVariables c = [] \<Longrightarrow>
   applyConfig isAdmin c w =
     notify (fold (apply_entry CURRENT_USER) (UserVariables c)
       (emit (EvOpenKey CURRENT_USER userEnvironmentPath) w))"
  by (simp add: applyConfig_def applyVariables_def)

lemma broadcast_ok_emit [simp]: "broadcast_ok (emit e w) = broadcast_ok w"
  by (simp add: emit_def)

lemma broadcast_ok_fold [simp]: "broadcast_ok (fold (apply_entry h) vs w) = broadcast_ok w"
  by (simp add: frame_fold)

lemma status_applyConfig:
  "fst (applyConfig isAdmin c w) =
     (if \<not> can_write (hkcu w)
      then ApplyUserError (StoreAccessError ''HKEY_CURRENT_USER'' userEnvironmentPath)
      else if isAdmin then
        (if \<not> can_write (hklm w)
         then ApplySystemError (StoreAccessError ''HKEY_LOCAL_MACHINE'' systemEnvironmentPath)
         else if broadcast_ok w then AppliedSuccessfully else BroadcastError)
      else if SystemVariables c \<noteq> [] then SystemVariablesIgnored
      else if broadcast_ok w then AppliedSuccessfully else BroadcastError)"
  by (simp add: applyConfig_user_closed applyConfig_system_closed applyConfig_admin
      applyConfig_ignored applyConfig_user_only notify_eq)

lemma trace_applyConfig:
  "new_trace w (snd (applyConfig isAdmin c w)) =
     EvOpenKey CURRENT_USER userEnvironmentPath #
     (if \<not> can_write (hkcu w) then []
      else concat (map (store_call CURRENT_USER) (UserVariables c)) @
        (if isAdmin then
           EvOpenKey LOCAL_MACHINE systemEnvironmentPath #
           (if \<not> can_write (hklm w) then []
            else concat (map (store_call LOCAL_MACHINE) (SystemVariables c)) @ [EvBroadcast])
         else if SystemVariables c \<noteq> [] then []
         else [EvBroadcast]))"
  by (simp add: applyConfig_user_closed applyConfig_system_closed applyConfig_admin
      applyConfig_ignored applyConfig_user_only notify_eq new_trace_def trace_fold_apply_entry)


lemma new_console_emit [simp]: "new_console (emit e w) w' = new_console w w'"
  by (simp add: new_console_def)

lemma new_console_after_emit [simp]: "new_console w (emit e w') = new_console w w'"
  by (simp add: new_console_def)

lemma names_two_folds:
  "map outcome_name (new_console w
     (fold (apply_entry h2) ys (emit e (fold (apply_entry h1) xs w)))) = map Name xs @ map Name ys"
proof -
  obtain o1 where a: "console (fold (apply_entry h1) xs w) = console w @ o1"
      "map outcome_name o1 = map Name xs"
    using console_fold_apply_entry by blast
  obtain o2 where b: "console (fold (apply_entry h2) ys (emit e (fold (apply_entry h1) xs w))) =
      console (emit e (fold (apply_entry h1) xs w)) @ o2" "map outcome_name o2 = map Name ys"
    using console_fold_apply_entry by blast
  have "console (fold (apply_entry h2) ys (emit e (fold (apply_entry h1) xs w))) =
      console w @ (o1 @ o2)"
    using a b by simp
  then have "new_console w (fold (apply_entry h2) ys (emit e (fold (apply_entry h1) xs w))) =
      o1 @ o2"
    by (rule new_console_append)
  then show ?thesis using a b by simp
qed

lemma hklm_emit [simp]: "hklm (emit e w) = hklm w"
  by (simp add: emit_def)

lemma hkcu_emit [simp]: "hkcu (emit e w) = hkcu w"
  by (simp add: emit_def)

lemma hklm_fold_user [simp]: "hklm (fold (apply_entry CURRENT_USER) vs w) = hklm w"
  using other_key_fold [of LOCAL_MACHINE CURRENT_USER vs w] by simp

lemma hkcu_fold_system [simp]: "hkcu (fold (apply_entry LOCAL_MACHINE) vs w) = hkcu w"
  using other_key_fold [of CURRENT_USER LOCAL_MACHINE vs w] by simp

lemma names_applyConfig:
  "map outcome_name (new_console w (snd (applyConfig isAdmin c w))) =
     (if \<not> can_write (hkcu w) then []
      else map Name (UserVariables c) @
        (if isAdmin \<and> can_write (hklm w) then map Name (SystemVariables c) else []))"
proof -
  have u: "map outcome_name (new_console w (fold (apply_entry CURRENT_USER) (UserVariables c)
      (emit (EvOpenKey CURRENT_USER userEnvironmentPath) w))) = map Name (UserVariables c)"
    using new_console_fold [of "emit (EvOpenKey CURRENT_USER userEnvironmentPath) w"] by simp
  have s: "map outcome_name (new_console w (fold (apply_entry LOCAL_MACHINE) (SystemVariables c)
      (emit (EvOpenKey LOCAL_MACHINE systemEnvironmentPath)
        (fold (apply_entry CURRENT_USER) (UserVariables c)
          (emit (EvOpenKey CURRENT_USER userEnvironmentPath) w))))) =
      map Name (UserVariables c) @ map Name (SystemVariables c)"
    using names_two_folds [of "emit (EvOpenKey CURRENT_USER userEnvironmentPath) w"] by simp
  consider (uc) "\<not> can_write (hkcu w)"
    | (sc) "can_write (hkcu w)" "isAdmin" "\<not> can_write (hklm w)"
    | (ad) "can_write (hkcu w)" "isAdmin" "can_write (hklm w)"
    | (ig) "can_write (hkcu w)" "\<not> isAdmin" "SystemVariables c \<noteq> []"
    | (uo) "can_write (hkcu w)" "\<not> isAdmin" "SystemVariables c = []"
    by blast
  then show ?thesis
  proof cases
    case uc
    then show ?thesis by (simp add: applyConfig_user_closed new_console_def)
  next
    case sc
    then show ?thesis using u by (simp add: applyConfig_system_closed)
  next
    case ad
    then show ?thesis using s by (simp add: applyConfig_admin notify_eq)
  next
    case ig
    then show ?thesis using u by (simp add: applyConfig_ignored)
  next
    case uo
    then show ?thesis using u by (simp add: applyConfig_user_only notify_eq)
  qed
qed

lemma hklm_not_admin: "\<not> isAdmin \<Longrightarrow> hklm (snd (applyConfig isAdmin c w)) = hklm w"
  by (cases "can_write (hkcu w)"; cases "SystemVariables c = []")
    (simp_all add: applyConfig_user_closed applyConfig_ignored applyConfig_user_only notify_eq)

lemmas example_defs =
  world_with_def open_key_def strict_key_def closed_key_def set_FOO_def delete_OLD_def
  set_LOCKED_def frobnicate_X_def set_JAVA_HOME_def config_system_only_def config_user_only_def
  config_locked_def config_both_def config_clean_def

lemmas run_defs =
  entry_lines_def new_console_def apply_entry_def SetStringValue_def DeleteValue_def
  print_def emit_def

text \<open>
  Claim C8. When the open of the user key fails, the run ends with the store-access error
  naming HKEY_CURRENT_USER and Environment, having done nothing but try to open it: no
  entry line, no system hive, no broadcast. When the open of the system key fails, the run
  ends with the error naming HKEY_LOCAL_MACHINE and its path; the user entries are done,
  no system entry is, and nothing is broadcast. When every open that is tried succeeds,
  the status does not depend on how the entries fare, and every entry has its line.
\<close>
theorem store_access_error_aborts:
  "(\<not> can_write (hkcu w) \<longrightarrow>
      fst (applyConfig isAdmin c w) =
        ApplyUserError (StoreAccessError ''HKEY_CURRENT_USER'' ''Environment'') \<and>
      new_trace w (snd (applyConfig isAdmin c w)) = [EvOpenKey CURRENT_USER ''Environment''] \<and>
      new_console w (snd (applyConfig isAdmin c w)) = [] \<and>
      hkcu (snd (applyConfig isAdmin c w)) = hkcu w \<and>
      hklm (snd (applyConfig isAdmin c w)) = hklm w) \<and>
   (can_write (hkcu w) \<and> isAdmin \<and> \<not> can_write (hklm w) \<longrightarrow>
      fst (applyConfig isAdmin c w) =
        ApplySystemError (StoreAccessError ''HKEY_LOCAL_MACHINE'' systemEnvironmentPath) \<and>
      new_trace w (snd (applyConfig isAdmin c w)) =
        EvOpenKey CURRENT_USER ''Environment'' #
        concat (map (store_call CURRENT_USER) (UserVariables c)) @
        [EvOpenKey LOCAL_MACHINE systemEnvironmentPath] \<and>
      map outcome_name (new_console w (snd (applyConfig isAdmin c w))) =
        map Name (UserVariables c) \<and>
      hklm (snd (applyConfig isAdmin c w)) = hklm w) \<and>
   (can_write (hkcu w) \<and> (isAdmin \<longrightarrow> can_write (hklm w)) \<longrightarrow>
      fst (applyConfig isAdmin c w) =
        (if \<not> isAdmin \<and> SystemVariables c \<noteq> [] then SystemVariablesIgnored
         else if broadcast_ok w then AppliedSuccessfully else BroadcastError) \<and>
      map outcome_name (new_console w (snd (applyConfig isAdmin c w))) =
        map Name (UserVariables c) @ (if isAdmin then map Name (SystemVariables c) else []))"
proof -
  have a: "fst (applyConfig isAdmin c w) =
        ApplyUserError (StoreAccessError ''HKEY_CURRENT_USER'' ''Environment'') \<and>
      new_trace w (snd (applyConfig isAdmin c w)) = [EvOpenKey CURRENT_USER ''Environment''] \<and>
      new_console w (snd (applyConfig isAdmin c w)) = [] \<and>
      hkcu (snd (applyConfig isAdmin c w)) = hkcu w \<and>
      hklm (snd (applyConfig isAdmin c w)) = hklm w"
    if "\<not> can_write (hkcu w)"
    using that
    by (simp add: applyConfig_user_closed userEnvironmentPath_def new_trace_def
        new_console_def)
  have b: "fst (applyConfig isAdmin c w) =
        ApplySystemError (StoreAccessError ''HKEY_LOCAL_MACHINE'' systemEnvironmentPath) \<and>
      new_trace w (snd (applyConfig isAdmin c w)) =
        EvOpenKey CURRENT_USER ''Environment'' #
        concat (map (store_call CURRENT_USER) (UserVariables c)) @
        [EvOpenKey LOCAL_MACHINE systemEnvironmentPath] \<and>
      map outcome_name (new_console w (snd (applyConfig isAdmin c w))) =
        map Name (UserVariables c) \<and>
      hklm (snd (applyConfig isAdmin c w)) = hklm w"
    if "can_write (hkcu w) \<and> isAdmin \<and> \<not> can_write (hklm w)"
  proof -
    have "hklm (snd (applyConfig isAdmin c w)) = hklm w"
      using that by (simp add: applyConfig_system_closed)
    then show ?thesis
      using that
      by (simp add: status_applyConfig trace_applyConfig names_applyConfig
          userEnvironmentPath_def)
  qed
  have d: "fst (applyConfig isAdmin c w) =
        (if \<not> isAdmin \<and> SystemVariables c \<noteq> [] then SystemVariablesIgnored
         else if broadcast_ok w then AppliedSuccessfully else BroadcastError) \<and>
      map outcome_name (new_console w (snd (applyConfig isAdmin c w))) =
        map Name (UserVariables c) @ (if isAdmin then map Name (SystemVariables c) else [])"
    if "can_write (hkcu w) \<and> (isAdmin \<longrightarrow> can_write (hklm w))"
    using that by (auto simp: status_applyConfig names_applyConfig)
  show ?thesis using a b d by blast
qed

theorem store_access_error_aborts_witness:
  "\<not> can_write (hkcu (world_with closed_key open_key)) \<and>
   fst (applyConfig True config_both (world_with closed_key open_key)) =
     ApplyUserError (StoreAccessError ''HKEY_CURRENT_USER'' ''Environment'') \<and>
   new_trace (world_with closed_key open_key)
     (snd (applyConfig True config_both (world_with closed_key open_key))) =
     [EvOpenKey CURRENT_USER ''Environment''] \<and>
   \<not> can_write (hklm (world_with strict_key closed_key)) \<and>
   fst (applyConfig True config_both (world_with strict_key closed_key)) =
     ApplySystemError (StoreAccessError ''HKEY_LOCAL_MACHINE'' systemEnvironmentPath) \<and>
   map outcome_name (new_console (world_with strict_key closed_key)
     (snd (applyConfig True config_both (world_with strict_key closed_key)))) =
     [''FOO'', ''LOCKED'', ''OLD''] \<and>
   fst (applyConfig True config_both (world_with strict_key open_key)) = AppliedSuccessfully \<and>
   map outcome_name (new_console (world_with strict_key open_key)
     (snd (applyConfig True config_both (world_with strict_key open_key)))) =
     [''FOO'', ''LOCKED'', ''OLD'', ''JAVA_HOME'']"
proof -
  have a: "\<not> can_write (hkcu (world_with closed_key open_key))"
    by (simp add: example_defs)
  have b: "can_write (hkcu (world_with strict_key closed_key)) \<and> True \<and>
      \<not> can_write (hklm (world_with strict_key closed_key))"
    by (simp add: example_defs)
  have c: "can_write (hkcu (world_with strict_key open_key)) \<and>
      (True \<longrightarrow> can_write (hklm (world_with strict_key open_key)))"
    by (simp add: example_defs)
  have d: "broadcast_ok (world_with strict_key open_key)"
    by (simp add: example_defs)
  show ?thesis
    using a b c d
      store_access_error_aborts [of "world_with closed_key open_key" True config_both]
      store_access_error_aborts [of "world_with strict_key closed_key" True config_both]
      store_access_error_aborts [of "world_with strict_key open_key" True config_both]
    by (simp add: set_FOO_def set_LOCKED_def delete_OLD_def set_JAVA_HOME_def config_both_def)
qed

section \<open>The broadcast\<close>

lemma trace_applyConfig_extends:
  "trace (snd (applyConfig isAdmin c w)) = trace w @ new_trace w (snd (applyConfig isAdmin c w))"
  by (cases "can_write (hkcu w)"; cases isAdmin; cases "can_write (hklm w)";
      cases "SystemVariables c = []")
    (simp_all add: applyConfig_user_closed applyConfig_system_closed applyConfig_admin
      applyConfig_ignored applyConfig_user_only notify_eq new_trace_def trace_fold_apply_entry)

lemma applyEnvVars_reaches_config:
  assumes "fst (applyEnvVars isAdmin path w) = AppliedSuccessfully \<or>
      fst (applyEnvVars isAdmin path w) = BroadcastError"
  shows "\<exists>c. applyEnvVars isAdmin path w = applyConfig isAdmin c (emit (EvReadFile path) w)"
  using assms
  by (auto simp: applyEnvVars_def ReadFile_def split: if_splits option.splits sum.splits)

lemma broadcast_once_applyConfig:
  "fst (applyConfig isAdmin c w) = AppliedSuccessfully \<or>
   fst (applyConfig isAdmin c w) = BroadcastError \<Longrightarrow>
   count_list (new_trace w (snd (applyConfig isAdmin c w))) EvBroadcast = 1 \<and>
   last (new_trace w (snd (applyConfig isAdmin c w))) = EvBroadcast"
  by (simp add: status_applyConfig trace_applyConfig count_broadcast_store_calls
      split: if_splits)

lemma broadcast_once_applyEnvVars:
  assumes "fst (applyEnvVars isAdmin path w) = AppliedSuccessfully \<or>
      fst (applyEnvVars isAdmin path w) = BroadcastError"
  shows "count_list (new_trace w (snd (applyEnvVars isAdmin path w))) EvBroadcast = 1"
proof -
  let ?w1 = "emit (EvReadFile path) w"
  obtain c where e: "applyEnvVars isAdmin path w = applyConfig isAdmin c ?w1"
    using applyEnvVars_reaches_config [OF assms] by blast
  have s: "fst (applyConfig isAdmin c ?w1) = AppliedSuccessfully \<or>
      fst (applyConfig isAdmin c ?w1) = BroadcastError"
    using assms e by simp
  have "trace (snd (applyConfig isAdmin c ?w1)) =
      trace w @ (EvReadFile path # new_trace ?w1 (snd (applyConfig isAdmin c ?w1)))"
    using trace_applyConfig_extends [of isAdmin c ?w1] by simp
  then have "new_trace w (snd (applyConfig isAdmin c ?w1)) =
      EvReadFile path # new_trace ?w1 (snd (applyConfig isAdmin c ?w1))"
    by (rule new_trace_append)
  then show ?thesis
    using broadcast_once_applyConfig [OF s] e by simp
qed

text \<open>
  Claim C1, as the code has it. Without administrator rights, with system variables
  declared and no user variables, the run opens the user key and then stops: its trace holds
  no broadcast, and with the user key open its status is the "system variables ignored"
  report. A run whose status is the success or the broadcast-error report, whether counted
  from the parsed configuration or from the button, has broadcast exactly once, as its last
  event.
\<close>
theorem notifier_invocation:
  "(\<not> isAdmin \<and> SystemVariables c \<noteq> [] \<and> UserVariables c = [] \<longrightarrow>
      new_trace w (snd (applyConfig isAdmin c w)) = [EvOpenKey CURRENT_USER userEnvironmentPath] \<and>
      count_list (new_trace w (snd (applyConfig isAdmin c w))) EvBroadcast = 0 \<and>
      (can_write (hkcu w) \<longrightarrow> fst (applyConfig isAdmin c w) = SystemVariablesIgnored)) \<and>
   (fst (applyConfig isAdmin c w) = AppliedSuccessfully \<or>
    fst (applyConfig isAdmin c w) = BroadcastError \<longrightarrow>
      count_list (new_trace w (snd (applyConfig isAdmin c w))) EvBroadcast = 1 \<and>
      last (new_trace w (snd (applyConfig isAdmin c w))) = EvBroadcast) \<and>
   (fst (applyEnvVars isAdmin path w) = AppliedSuccessfully \<or>
    fst (applyEnvVars isAdmin path w) = BroadcastError \<longrightarrow>
      count_list (new_trace w (snd (applyEnvVars isAdmin path w))) EvBroadcast = 1)"
proof -
  have a: "new_trace w (snd (applyConfig isAdmin c w)) =
        [EvOpenKey CURRENT_USER userEnvironmentPath] \<and>
      count_list (new_trace w (snd (applyConfig isAdmin c w))) EvBroadcast = 0 \<and>
      (can_write (hkcu w) \<longrightarrow> fst (applyConfig isAdmin c w) = SystemVariablesIgnored)"
    if "\<not> isAdmin \<and> SystemVariables c \<noteq> [] \<and> UserVariables c = []"
    using that by (simp add: trace_applyConfig status_applyConfig)
  show ?thesis
    using a broadcast_once_applyConfig [of isAdmin c w]
      broadcast_once_applyEnvVars [of isAdmin path w]
    by blast
qed

text \<open>
  The sentence of the spec, that the broadcast is still sent when only system variables
  are declared and the program is not elevated, fails on this run.
\<close>

theorem notifier_counterexample:
  "UserVariables config_system_only = [] \<and> SystemVariables config_system_only \<noteq> [] \<and>
   fst (applyConfig False config_system_only (world_with open_key open_key)) =
     SystemVariablesIgnored \<and>
   count_list (new_trace (world_with open_key open_key)
     (snd (applyConfig False config_system_only (world_with open_key open_key)))) EvBroadcast = 0"
  by (simp add: trace_applyConfig status_applyConfig example_defs)

lemma valid_cfg_yaml: "isValidYAMLFile ''cfg.yaml''"
  by code_simp

lemma demo_world_run:
  "applyEnvVars False ''cfg.yaml'' demo_world =
     applyConfig False config_user_only (emit (EvReadFile ''cfg.yaml'') demo_world)"
  by (simp add: applyEnvVars_def valid_cfg_yaml ReadFile_def demo_world_def Unmarshal_Marshal)

theorem notifier_invocation_witness:
  "count_list (new_trace (world_with open_key open_key)
     (snd (applyConfig False config_system_only (world_with open_key open_key)))) EvBroadcast = 0 \<and>
   fst (applyConfig False config_user_only (world_with open_key open_key)) = AppliedSuccessfully \<and>
   count_list (new_trace (world_with open_key open_key)
     (snd (applyConfig False config_user_only (world_with open_key open_key)))) EvBroadcast = 1 \<and>
   fst (applyEnvVars False ''cfg.yaml'' demo_world) = AppliedSuccessfully \<and>
   count_list (new_trace demo_world (snd (applyEnvVars False ''cfg.yaml'' demo_world)))
     EvBroadcast = 1"
proof -
  have h1: "\<not> False \<and> SystemVariables config_system_only \<noteq> [] \<and>
      UserVariables config_system_only = []"
    by (simp add: example_defs)
  have h2: "fst (applyConfig False config_user_only (world_with open_key open_key)) =
      AppliedSuccessfully"
    by (simp add: status_applyConfig example_defs)
  have h3: "fst (applyEnvVars False ''cfg.yaml'' demo_world) = AppliedSuccessfully"
    unfolding demo_world_run by (simp add: status_applyConfig demo_world_def example_defs)
  show ?thesis
    using h1 h2 h3
      notifier_invocation [of False config_system_only "world_with open_key open_key"]
      notifier_invocation [of False config_user_only "world_with open_key open_key"
        "''cfg.yaml''"]
      notifier_invocation [of False config_user_only demo_world "''cfg.yaml''"]
    by simp
qed

section \<open>Applying a configuration twice\<close>

lemma key_fold_cong:
  "key_of h u = key_of h w \<Longrightarrow>
   key_of h (fold (apply_entry h) vs u) = key_of h (fold (apply_entry h) vs w)"
proof (induction vs arbitrary: u w)
  case Nil
  then show ?case by simp
next
  case (Cons v vs)
  have "key_of h (apply_entry h v u) = key_of h (apply_entry h v w)"
    using Cons.prems by (simp add: key_apply_entry)
  then have "key_of h (fold (apply_entry h) vs (apply_entry h v u)) =
      key_of h (fold (apply_entry h) vs (apply_entry h v w))"
    by (rule Cons.IH)
  then show ?case by simp
qed

lemma refused_apply_entry [simp]:
  "refused (key_of h' (apply_entry h v w)) = refused (key_of h' w)"
  by (simp add: perm_apply_entry)

lemma refused_fold [simp]:
  "refused (key_of h' (fold (apply_entry h) vs w)) = refused (key_of h' w)"
  by (simp add: perm_fold)

lemma can_write_fold [simp]:
  "can_write (key_of h' (fold (apply_entry h) vs w)) = can_write (key_of h' w)"
  by (simp add: perm_fold)

lemma vals_untouched:
  "\<forall>v \<in> set vs. Name v = n \<longrightarrow>
      \<not> ((Operation v = ''set'' \<or> Operation v = ''delete'') \<and> \<not> refused (key_of h w) n) \<Longrightarrow>
   vals (key_of h (fold (apply_entry h) vs w)) n = vals (key_of h w) n"
proof (induction vs arbitrary: w)
  case Nil
  then show ?case by simp
next
  case (Cons v vs)
  have step: "vals (key_of h (apply_entry h v w)) n = vals (key_of h w) n"
    using Cons.prems by (auto simp: key_apply_entry)
  have "\<forall>x \<in> set vs. Name x = n \<longrightarrow>
      \<not> ((Operation x = ''set'' \<or> Operation x = ''delete'') \<and>
         \<not> refused (key_of h (apply_entry h v w)) n)"
    using Cons.prems by simp
  then have "vals (key_of h (fold (apply_entry h) vs (apply_entry h v w))) n =
      vals (key_of h (apply_entry h v w)) n"
    by (rule Cons.IH)
  then show ?case using step by simp
qed

lemma vals_refused_name:
  "refused (key_of h w) n \<Longrightarrow> vals (key_of h (fold (apply_entry h) vs w)) n = vals (key_of h w) n"
  by (rule vals_untouched) simp

lemma key_fold_determined:
  assumes "refused (key_of h u) = refused (key_of h w)"
    and "can_write (key_of h u) = can_write (key_of h w)"
    and "\<forall>n. (\<forall>v \<in> set vs. Name v = n \<longrightarrow>
            \<not> ((Operation v = ''set'' \<or> Operation v = ''delete'') \<and> \<not> refused (key_of h w) n)) \<longrightarrow>
          vals (key_of h u) n = vals (key_of h w) n"
  shows "key_of h (fold (apply_entry h) vs u) = key_of h (fold (apply_entry h) vs w)"
  using assms
proof (induction vs arbitrary: u w)
  case Nil
  then have "vals (key_of h u) = vals (key_of h w)" by auto
  then show ?case using Nil.prems(1,2) by simp
next
  case (Cons v vs)
  let ?u = "apply_entry h v u" and ?w = "apply_entry h v w"
  have r: "refused (key_of h ?u) = refused (key_of h ?w)"
    using Cons.prems(1) by simp
  have c: "can_write (key_of h ?u) = can_write (key_of h ?w)"
    using Cons.prems(2) by (simp add: perm_apply_entry)
  have a: "\<forall>n. (\<forall>x \<in> set vs. Name x = n \<longrightarrow>
            \<not> ((Operation x = ''set'' \<or> Operation x = ''delete'') \<and> \<not> refused (key_of h ?w) n)) \<longrightarrow>
          vals (key_of h ?u) n = vals (key_of h ?w) n"
  proof (intro allI impI)
    fix n
    assume un: "\<forall>x \<in> set vs. Name x = n \<longrightarrow>
            \<not> ((Operation x = ''set'' \<or> Operation x = ''delete'') \<and> \<not> refused (key_of h ?w) n)"
    show "vals (key_of h ?u) n = vals (key_of h ?w) n"
    proof (cases "Name v = n \<and> (Operation v = ''set'' \<or> Operation v = ''delete'') \<and>
        \<not> refused (key_of h w) n")
      case True
      then show ?thesis using Cons.prems(1) by (auto simp: key_apply_entry)
    next
      case False
      then have "\<forall>x \<in> set (v # vs). Name x = n \<longrightarrow>
            \<not> ((Operation x = ''set'' \<or> Operation x = ''delete'') \<and> \<not> refused (key_of h w) n)"
        using un by auto
      then have "vals (key_of h u) n = vals (key_of h w) n"
        using Cons.prems(3) by blast
      then show ?thesis using False Cons.prems(1) by (auto simp: key_apply_entry)
    qed
  qed
  have "key_of h (fold (apply_entry h) vs ?u) = key_of h (fold (apply_entry h) vs ?w)"
    by (rule Cons.IH [OF r c a])
  then show ?case by simp
qed

lemma key_fold_idem:
  "key_of h (fold (apply_entry h) vs (fold (apply_entry h) vs w)) =
   key_of h (fold (apply_entry h) vs w)"
proof (rule key_fold_determined)
  show "refused (key_of h (fold (apply_entry h) vs w)) = refused (key_of h w)" by simp
  show "can_write (key_of h (fold (apply_entry h) vs w)) = can_write (key_of h w)" by simp
  show "\<forall>n. (\<forall>v \<in> set vs. Name v = n \<longrightarrow>
            \<not> ((Operation v = ''set'' \<or> Operation v = ''delete'') \<and> \<not> refused (key_of h w) n)) \<longrightarrow>
          vals (key_of h (fold (apply_entry h) vs w)) n = vals (key_of h w) n"
    using vals_untouched by blast
qed

lemma key_fold_again:
  "key_of h u = key_of h (fold (apply_entry h) vs w) \<Longrightarrow>
   key_of h (fold (apply_entry h) vs u) = key_of h (fold (apply_entry h) vs w)"
  using key_fold_cong [of h u "fold (apply_entry h) vs w" vs] key_fold_idem [of h vs w] by simp


lemma console_fold_lines:
  "console (fold (apply_entry h) vs w) = console w @ entry_lines h vs w"
  using console_fold_apply_entry [of h vs w] by (auto simp: entry_lines_def new_console_def)

lemma entry_lines_Nil [simp]: "entry_lines h [] w = []"
  by (simp add: entry_lines_def new_console_def)

lemma entry_lines_Cons:
  "entry_lines h (v # vs) w = entry_lines h [v] w @ entry_lines h vs (apply_entry h v w)"
proof -
  have "console (fold (apply_entry h) (v # vs) w) =
      console w @ (entry_lines h [v] w @ entry_lines h vs (apply_entry h v w))"
    using console_fold_lines [of h vs "apply_entry h v w"] console_fold_lines [of h "[v]" w]
    by simp
  then have "new_console w (fold (apply_entry h) (v # vs) w) =
      entry_lines h [v] w @ entry_lines h vs (apply_entry h v w)"
    by (rule new_console_append)
  then show ?thesis by (simp add: entry_lines_def)
qed

lemma entry_lines_single:
  "entry_lines h [v] w =
     (if Operation v = ''set'' then
        (if refused (key_of h w) (Name v) then [SetFailed (Name v) (Value v)]
         else [SetOk (Name v) (Value v)])
      else if Operation v = ''delete'' then
        (if vals (key_of h w) (Name v) = None then [AlreadyAbsent (Name v)]
         else if refused (key_of h w) (Name v) then [DeleteFailed (Name v)]
         else [DeleteOk (Name v)])
      else [UnknownOperation (Operation v) (Name v)])"
  by (simp add: entry_lines_def new_console_def apply_entry_def SetStringValue_def
      DeleteValue_def)

lemma entry_lines_cong:
  "key_of h u = key_of h w \<Longrightarrow> entry_lines h vs u = entry_lines h vs w"
proof (induction vs arbitrary: u w)
  case Nil
  then show ?case by simp
next
  case (Cons v vs)
  have k: "key_of h (apply_entry h v u) = key_of h (apply_entry h v w)"
    using Cons.prems by (simp add: key_apply_entry)
  have "entry_lines h vs (apply_entry h v u) = entry_lines h vs (apply_entry h v w)"
    using k by (rule Cons.IH)
  moreover have "entry_lines h [v] u = entry_lines h [v] w"
    using Cons.prems by (simp add: entry_lines_single)
  ultimately show ?case by (simp add: entry_lines_Cons [of h v vs])
qed

lemma failures_same:
  assumes "refused (key_of h u) = refused (key_of h w)"
    and "\<forall>n. refused (key_of h w) n \<longrightarrow> vals (key_of h u) n = vals (key_of h w) n"
  shows "filter is_failure (entry_lines h vs u) = filter is_failure (entry_lines h vs w)"
  using assms
proof (induction vs arbitrary: u w)
  case Nil
  then show ?case by simp
next
  case (Cons v vs)
  let ?u = "apply_entry h v u" and ?w = "apply_entry h v w"
  have r: "refused (key_of h ?u) = refused (key_of h ?w)"
    using Cons.prems(1) by simp
  have a: "\<forall>n. refused (key_of h ?w) n \<longrightarrow> vals (key_of h ?u) n = vals (key_of h ?w) n"
    using Cons.prems by (auto simp: key_apply_entry)
  have t: "filter is_failure (entry_lines h vs ?u) = filter is_failure (entry_lines h vs ?w)"
    by (rule Cons.IH [OF r a])
  have s: "filter is_failure (entry_lines h [v] u) = filter is_failure (entry_lines h [v] w)"
    using Cons.prems by (auto simp: entry_lines_single)
  show ?case using s t by (simp add: entry_lines_Cons [of h v vs])
qed

lemma failures_second_run:
  "key_of h u = key_of h (fold (apply_entry h) vs w) \<Longrightarrow>
   filter is_failure (entry_lines h vs u) = filter is_failure (entry_lines h vs w)"
  by (rule failures_same) (simp_all add: vals_refused_name)

lemma no_refusal_no_failure:
  "\<forall>v \<in> set vs. \<not> refused (key_of h w) (Name v) \<Longrightarrow> filter is_failure (entry_lines h vs w) = []"
proof (induction vs arbitrary: w)
  case Nil
  then show ?case by simp
next
  case (Cons v vs)
  have "\<forall>x \<in> set vs. \<not> refused (key_of h (apply_entry h v w)) (Name x)"
    using Cons.prems by simp
  then have "filter is_failure (entry_lines h vs (apply_entry h v w)) = []"
    by (rule Cons.IH)
  moreover have "filter is_failure (entry_lines h [v] w) = []"
    using Cons.prems by (simp add: entry_lines_single)
  ultimately show ?case by (simp add: entry_lines_Cons [of h v vs])
qed

text \<open>Keys and lines of a whole run.\<close>

lemma hkcu_applyConfig:
  "hkcu (snd (applyConfig isAdmin c w)) =
     (if can_write (hkcu w)
      then key_of CURRENT_USER (fold (apply_entry CURRENT_USER) (UserVariables c) w)
      else hkcu w)"
proof -
  have k: "hkcu (fold (apply_entry CURRENT_USER) (UserVariables c)
      (emit (EvOpenKey CURRENT_USER userEnvironmentPath) w)) =
      key_of CURRENT_USER (fold (apply_entry CURRENT_USER) (UserVariables c) w)"
    using key_fold_cong [of CURRENT_USER "emit (EvOpenKey CURRENT_USER userEnvironmentPath) w" w
        "UserVariables c"] by simp
  consider (uc) "\<not> can_write (hkcu w)"
    | (sc) "can_write (hkcu w)" "isAdmin" "\<not> can_write (hklm w)"
    | (ad) "can_write (hkcu w)" "isAdmin" "can_write (hklm w)"
    | (ig) "can_write (hkcu w)" "\<not> isAdmin" "SystemVariables c \<noteq> []"
    | (uo) "can_write (hkcu w)" "\<not> isAdmin" "SystemVariables c = []"
    by blast
  then show ?thesis
  proof cases
    case uc
    then show ?thesis by (simp add: applyConfig_user_closed)
  next
    case sc
    then show ?thesis using k by (simp add: applyConfig_system_closed)
  next
    case ad
    then show ?thesis using k by (simp add: applyConfig_admin notify_eq)
  next
    case ig
    then show ?thesis using k by (simp add: applyConfig_ignored)
  next
    case uo
    then show ?thesis using k by (simp add: applyConfig_user_only notify_eq)
  qed
qed

lemma hklm_applyConfig:
  "hklm (snd (applyConfig isAdmin c w)) =
     (if can_write (hkcu w) \<and> isAdmin \<and> can_write (hklm w)
      then key_of LOCAL_MACHINE (fold (apply_entry LOCAL_MACHINE) (SystemVariables c) w)
      else hklm w)"
proof -
  have k: "hklm (fold (apply_entry LOCAL_MACHINE) (SystemVariables c)
      (emit (EvOpenKey LOCAL_MACHINE systemEnvironmentPath)
        (fold (apply_entry CURRENT_USER) (UserVariables c)
          (emit (EvOpenKey CURRENT_USER userEnvironmentPath) w)))) =
      key_of LOCAL_MACHINE (fold (apply_entry LOCAL_MACHINE) (SystemVariables c) w)"
    using key_fold_cong [of LOCAL_MACHINE
        "emit (EvOpenKey LOCAL_MACHINE systemEnvironmentPath)
          (fold (apply_entry CURRENT_USER) (UserVariables c)
            (emit (EvOpenKey CURRENT_USER userEnvironmentPath) w))" w "SystemVariables c"]
    by simp
  consider (uc) "\<not> can_write (hkcu w)"
    | (sc) "can_write (hkcu w)" "isAdmin" "\<not> can_write (hklm w)"
    | (ad) "can_write (hkcu w)" "isAdmin" "can_write (hklm w)"
    | (na) "\<not> isAdmin"
    by blast
  then show ?thesis
  proof cases
    case uc
    then show ?thesis by (simp add: applyConfig_user_closed)
  next
    case sc
    then show ?thesis by (simp add: applyConfig_system_closed)
  next
    case ad
    then show ?thesis using k by (simp add: applyConfig_admin notify_eq)
  next
    case na
    then show ?thesis by (simp add: hklm_not_admin)
  qed
qed

lemma lines_applyConfig:
  "new_console w (snd (applyConfig isAdmin c w)) =
     (if \<not> can_write (hkcu w) then []
      else entry_lines CURRENT_USER (UserVariables c) w @
        (if isAdmin \<and> can_write (hklm w) then entry_lines LOCAL_MACHINE (SystemVariables c) w
         else []))"
proof -
  let ?w0 = "emit (EvOpenKey CURRENT_USER userEnvironmentPath) w"
  let ?w1 = "fold (apply_entry CURRENT_USER) (UserVariables c) ?w0"
  let ?w2 = "emit (EvOpenKey LOCAL_MACHINE systemEnvironmentPath) ?w1"
  let ?w3 = "fold (apply_entry LOCAL_MACHINE) (SystemVariables c) ?w2"
  have lu: "entry_lines CURRENT_USER (UserVariables c) ?w0 =
      entry_lines CURRENT_USER (UserVariables c) w"
    by (rule entry_lines_cong) simp
  have ls: "entry_lines LOCAL_MACHINE (SystemVariables c) ?w2 =
      entry_lines LOCAL_MACHINE (SystemVariables c) w"
    by (rule entry_lines_cong) simp
  have c1: "console ?w1 = console w @ entry_lines CURRENT_USER (UserVariables c) w"
    using console_fold_lines [of CURRENT_USER "UserVariables c" ?w0] lu by simp
  have c3: "console ?w3 = console w @ (entry_lines CURRENT_USER (UserVariables c) w @
      entry_lines LOCAL_MACHINE (SystemVariables c) w)"
    using console_fold_lines [of LOCAL_MACHINE "SystemVariables c" ?w2] ls c1 by simp
  have n1: "new_console w ?w1 = entry_lines CURRENT_USER (UserVariables c) w"
    using c1 by (rule new_console_append)
  have n3: "new_console w ?w3 = entry_lines CURRENT_USER (UserVariables c) w @
      entry_lines LOCAL_MACHINE (SystemVariables c) w"
    using c3 by (rule new_console_append)
  consider (uc) "\<not> can_write (hkcu w)"
    | (sc) "can_write (hkcu w)" "isAdmin" "\<not> can_write (hklm w)"
    | (ad) "can_write (hkcu w)" "isAdmin" "can_write (hklm w)"
    | (ig) "can_write (hkcu w)" "\<not> isAdmin" "SystemVariables c \<noteq> []"
    | (uo) "can_write (hkcu w)" "\<not> isAdmin" "SystemVariables c = []"
    by blast
  then show ?thesis
  proof cases
    case uc
    then show ?thesis by (simp add: applyConfig_user_closed new_console_def)
  next
    case sc
    then show ?thesis using n1 by (simp add: applyConfig_system_closed)
  next
    case ad
    then show ?thesis using n3 by (simp add: applyConfig_admin notify_eq)
  next
    case ig
    then show ?thesis using n1 by (simp add: applyConfig_ignored)
  next
    case uo
    then show ?thesis using n1 by (simp add: applyConfig_user_only notify_eq)
  qed
qed

lemma can_write_hkcu_after:
  "can_write (hkcu (snd (applyConfig isAdmin c w))) = can_write (hkcu w)"
  using can_write_fold [of CURRENT_USER CURRENT_USER "UserVariables c" w]
  by (simp add: hkcu_applyConfig)

lemma can_write_hklm_after:
  "can_write (hklm (snd (applyConfig isAdmin c w))) = can_write (hklm w)"
  using can_write_fold [of LOCAL_MACHINE LOCAL_MACHINE "SystemVariables c" w]
  by (simp add: hklm_applyConfig)

lemma refused_hkcu_after:
  "refused (hkcu (snd (applyConfig isAdmin c w))) = refused (hkcu w)"
  using refused_fold [of CURRENT_USER CURRENT_USER "UserVariables c" w]
  by (simp add: hkcu_applyConfig)

lemma refused_hklm_after:
  "refused (hklm (snd (applyConfig isAdmin c w))) = refused (hklm w)"
  using refused_fold [of LOCAL_MACHINE LOCAL_MACHINE "SystemVariables c" w]
  by (simp add: hklm_applyConfig)

lemma broadcast_ok_after: "broadcast_ok (snd (applyConfig isAdmin c w)) = broadcast_ok w"
  by (cases "can_write (hkcu w)"; cases isAdmin; cases "can_write (hklm w)";
      cases "SystemVariables c = []")
    (simp_all add: applyConfig_user_closed applyConfig_system_closed applyConfig_admin
      applyConfig_ignored applyConfig_user_only notify_eq)

lemma status_second_run:
  "fst (applyConfig isAdmin c (snd (applyConfig isAdmin c w))) = fst (applyConfig isAdmin c w)"
  by (simp only: status_applyConfig [of isAdmin c "snd (applyConfig isAdmin c w)"]
      can_write_hkcu_after can_write_hklm_after broadcast_ok_after
      status_applyConfig [of isAdmin c w])

lemma hkcu_second_run:
  "hkcu (snd (applyConfig isAdmin c (snd (applyConfig isAdmin c w)))) =
   hkcu (snd (applyConfig isAdmin c w))"
proof (cases "can_write (hkcu w)")
  case True
  let ?w1 = "snd (applyConfig isAdmin c w)"
  have k1: "key_of CURRENT_USER ?w1 =
      key_of CURRENT_USER (fold (apply_entry CURRENT_USER) (UserVariables c) w)"
    using True by (simp add: hkcu_applyConfig)
  have "key_of CURRENT_USER (fold (apply_entry CURRENT_USER) (UserVariables c) ?w1) =
      key_of CURRENT_USER (fold (apply_entry CURRENT_USER) (UserVariables c) w)"
    using k1 by (rule key_fold_again)
  then show ?thesis
    using True k1 can_write_hkcu_after [of isAdmin c w]
    by (simp add: hkcu_applyConfig [of isAdmin c ?w1])
next
  case False
  then show ?thesis
    using can_write_hkcu_after [of isAdmin c w]
    by (simp add: hkcu_applyConfig [of isAdmin c "snd (applyConfig isAdmin c w)"])
qed

lemma hklm_second_run:
  "hklm (snd (applyConfig isAdmin c (snd (applyConfig isAdmin c w)))) =
   hklm (snd (applyConfig isAdmin c w))"
proof (cases "can_write (hkcu w) \<and> isAdmin \<and> can_write (hklm w)")
  case True
  let ?w1 = "snd (applyConfig isAdmin c w)"
  have k1: "key_of LOCAL_MACHINE ?w1 =
      key_of LOCAL_MACHINE (fold (apply_entry LOCAL_MACHINE) (SystemVariables c) w)"
    using True by (simp add: hklm_applyConfig)
  have k2: "key_of LOCAL_MACHINE (fold (apply_entry LOCAL_MACHINE) (SystemVariables c) ?w1) =
      key_of LOCAL_MACHINE (fold (apply_entry LOCAL_MACHINE) (SystemVariables c) w)"
    using k1 by (rule key_fold_again)
  have c1: "can_write (hkcu ?w1) \<and> isAdmin \<and> can_write (hklm ?w1)"
    using True by (simp add: can_write_hkcu_after can_write_hklm_after)
  have "hklm (snd (applyConfig isAdmin c ?w1)) =
      key_of LOCAL_MACHINE (fold (apply_entry LOCAL_MACHINE) (SystemVariables c) ?w1)"
    using hklm_applyConfig [of isAdmin c ?w1] unfolding if_P [OF c1] .
  then show ?thesis using k1 k2 by simp
next
  case False
  let ?w1 = "snd (applyConfig isAdmin c w)"
  have c1: "\<not> (can_write (hkcu ?w1) \<and> isAdmin \<and> can_write (hklm ?w1))"
    using False by (simp add: can_write_hkcu_after can_write_hklm_after)
  show ?thesis
    using hklm_applyConfig [of isAdmin c ?w1] unfolding if_not_P [OF c1] .
qed

lemma failures_second_run_config:
  "filter is_failure (new_console (snd (applyConfig isAdmin c w))
      (snd (applyConfig isAdmin c (snd (applyConfig isAdmin c w))))) =
   filter is_failure (new_console w (snd (applyConfig isAdmin c w)))"
proof -
  let ?w1 = "snd (applyConfig isAdmin c w)"
  have u: "filter is_failure (entry_lines CURRENT_USER (UserVariables c) ?w1) =
      filter is_failure (entry_lines CURRENT_USER (UserVariables c) w)"
    if "can_write (hkcu w)"
    by (rule failures_second_run) (use that in \<open>simp add: hkcu_applyConfig\<close>)
  have s: "filter is_failure (entry_lines LOCAL_MACHINE (SystemVariables c) ?w1) =
      filter is_failure (entry_lines LOCAL_MACHINE (SystemVariables c) w)"
    if "can_write (hkcu w)" "isAdmin" "can_write (hklm w)"
    by (rule failures_second_run) (use that in \<open>simp add: hklm_applyConfig\<close>)
  show ?thesis
    using u s
    by (simp add: lines_applyConfig [of ?w1] lines_applyConfig [of w]
        can_write_hkcu_after can_write_hklm_after)
qed

lemma no_refusal_run:
  assumes "\<forall>v \<in> set (UserVariables c). \<not> refused (hkcu w) (Name v)"
    and "\<forall>v \<in> set (SystemVariables c). \<not> refused (hklm w) (Name v)"
  shows "filter is_failure (new_console w (snd (applyConfig isAdmin c w))) = []"
proof -
  have u: "filter is_failure (entry_lines CURRENT_USER (UserVariables c) w) = []"
    by (rule no_refusal_no_failure) (use assms(1) in simp)
  have s: "filter is_failure (entry_lines LOCAL_MACHINE (SystemVariables c) w) = []"
    by (rule no_refusal_no_failure) (use assms(2) in simp)
  show ?thesis using u s by (simp add: lines_applyConfig)
qed

text \<open>
  Claim C3, as the code has it. Deleting a name that is absent prints the already-absent
  line and leaves the key alone. A second run of the same configuration leaves both keys
  exactly as the first run left them, ends with the same status, and reports the failures
  of the first run again and no other: none at all when the keys turn down no write of
  the configuration.
\<close>
theorem apply_twice:
  "(Operation v = ''delete'' \<and> vals (key_of h w) (Name v) = None \<longrightarrow>
      new_console w (apply_entry h v w) = [AlreadyAbsent (Name v)] \<and>
      key_of h (apply_entry h v w) = key_of h w) \<and>
   hkcu (snd (applyConfig isAdmin c (snd (applyConfig isAdmin c w)))) =
     hkcu (snd (applyConfig isAdmin c w)) \<and>
   hklm (snd (applyConfig isAdmin c (snd (applyConfig isAdmin c w)))) =
     hklm (snd (applyConfig isAdmin c w)) \<and>
   fst (applyConfig isAdmin c (snd (applyConfig isAdmin c w))) = fst (applyConfig isAdmin c w) \<and>
   filter is_failure (new_console (snd (applyConfig isAdmin c w))
      (snd (applyConfig isAdmin c (snd (applyConfig isAdmin c w))))) =
     filter is_failure (new_console w (snd (applyConfig isAdmin c w))) \<and>
   ((\<forall>x \<in> set (UserVariables c). \<not> refused (hkcu w) (Name x)) \<and>
    (\<forall>x \<in> set (SystemVariables c). \<not> refused (hklm w) (Name x)) \<longrightarrow>
      filter is_failure (new_console (snd (applyConfig isAdmin c w))
        (snd (applyConfig isAdmin c (snd (applyConfig isAdmin c w))))) = [])"
proof -
  have a: "new_console w (apply_entry h v w) = [AlreadyAbsent (Name v)] \<and>
      key_of h (apply_entry h v w) = key_of h w"
    if "Operation v = ''delete'' \<and> vals (key_of h w) (Name v) = None"
    using that entry_lines_single [of h v w]
    by (simp add: entry_lines_def key_apply_entry vals_delete_absent)
  have e: "filter is_failure (new_console (snd (applyConfig isAdmin c w))
        (snd (applyConfig isAdmin c (snd (applyConfig isAdmin c w))))) = []"
    if "(\<forall>x \<in> set (UserVariables c). \<not> refused (hkcu w) (Name x)) \<and>
        (\<forall>x \<in> set (SystemVariables c). \<not> refused (hklm w) (Name x))"
    using that no_refusal_run [of c w isAdmin] by (simp add: failures_second_run_config)
  show ?thesis
    using a e hkcu_second_run [of isAdmin c w] hklm_second_run [of isAdmin c w]
      status_second_run [of isAdmin c w] failures_second_run_config [of isAdmin c w]
    by blast
qed

text \<open>
  "The second run reports zero failures" does not hold when the key turns a write down:
  the entry fails in the second run as it did in the first.
\<close>

theorem apply_twice_counterexample:
  "filter is_failure
     (new_console (snd (applyConfig False config_locked (world_with strict_key open_key)))
        (snd (applyConfig False config_locked
               (snd (applyConfig False config_locked (world_with strict_key open_key)))))) =
     [SetFailed ''LOCKED'' ''new'']"
proof -
  have c: "can_write (hkcu (world_with strict_key open_key))"
    by (simp add: example_defs)
  have "filter is_failure
     (new_console (snd (applyConfig False config_locked (world_with strict_key open_key)))
        (snd (applyConfig False config_locked
               (snd (applyConfig False config_locked (world_with strict_key open_key)))))) =
     filter is_failure (new_console (world_with strict_key open_key)
        (snd (applyConfig False config_locked (world_with strict_key open_key))))"
    by (rule failures_second_run_config)
  also have "\<dots> = filter is_failure
      (entry_lines CURRENT_USER (UserVariables config_locked) (world_with strict_key open_key))"
    using c by (simp add: lines_applyConfig)
  also have "\<dots> = [SetFailed ''LOCKED'' ''new'']"
    by (simp add: run_defs example_defs)
  finally show ?thesis .
qed

theorem apply_twice_witness:
  "Operation delete_OLD = ''delete'' \<and>
   vals (key_of CURRENT_USER (world_with strict_key open_key)) (Name delete_OLD) = None \<and>
   new_console (world_with strict_key open_key)
     (apply_entry CURRENT_USER delete_OLD (world_with strict_key open_key)) =
     [AlreadyAbsent (Name delete_OLD)] \<and>
   hkcu (snd (applyConfig True config_clean
          (snd (applyConfig True config_clean (world_with strict_key open_key))))) =
     hkcu (snd (applyConfig True config_clean (world_with strict_key open_key))) \<and>
   filter is_failure
     (new_console (snd (applyConfig True config_clean (world_with strict_key open_key)))
        (snd (applyConfig True config_clean
               (snd (applyConfig True config_clean (world_with strict_key open_key)))))) = []"
proof -
  have a: "Operation delete_OLD = ''delete'' \<and>
      vals (key_of CURRENT_USER (world_with strict_key open_key)) (Name delete_OLD) = None"
    by (simp add: example_defs)
  have b: "(\<forall>x \<in> set (UserVariables config_clean).
        \<not> refused (hkcu (world_with strict_key open_key)) (Name x)) \<and>
      (\<forall>x \<in> set (SystemVariables config_clean).
        \<not> refused (hklm (world_with strict_key open_key)) (Name x))"
    by (simp add: example_defs)
  show ?thesis
    using a b
      apply_twice [of delete_OLD CURRENT_USER "world_with strict_key open_key" True config_clean]
    by blast
qed

section \<open>Privilege gating\<close>

lemma last_accepted_snoc:
  "last_accepted k (xs @ [v]) n =
     (if Name v = n \<and> accepted k v then Some v else last_accepted k xs n)"
  by (simp add: last_accepted_def)

lemma expected_vals_Nil [simp]: "expected_vals k [] n = vals k n"
  by (simp add: expected_vals_def last_accepted_def)

lemma expected_vals_snoc:
  "expected_vals k (xs @ [v]) n =
     (if Name v = n \<and> accepted k v
      then (if Operation v = ''set'' then Some (Value v) else None)
      else expected_vals k xs n)"
  by (simp add: expected_vals_def last_accepted_snoc)

lemma vals_fold_expected:
  "vals (key_of h (fold (apply_entry h) vs w)) n = expected_vals (key_of h w) vs n"
proof (induction vs arbitrary: n rule: rev_induct)
  case Nil
  then show ?case by simp
next
  case (snoc v xs)
  let ?W = "fold (apply_entry h) xs w"
  have r: "refused (key_of h ?W) = refused (key_of h w)" by simp
  have "vals (key_of h (apply_entry h v ?W)) n =
      (if Name v = n \<and> accepted (key_of h w) v
       then (if Operation v = ''set'' then Some (Value v) else None)
       else vals (key_of h ?W) n)"
    using r by (auto simp: key_apply_entry accepted_def)
  then show ?case using snoc.IH [of n] by (simp add: expected_vals_snoc)
qed

lemma entry_lines_snoc:
  "entry_lines h (xs @ [v]) w =
     entry_lines h xs w @ entry_lines h [v] (fold (apply_entry h) xs w)"
proof -
  have "console (fold (apply_entry h) (xs @ [v]) w) =
      console w @ (entry_lines h xs w @ entry_lines h [v] (fold (apply_entry h) xs w))"
    using console_fold_lines [of h "[v]" "fold (apply_entry h) xs w"]
      console_fold_lines [of h xs w]
    by simp
  then have "new_console w (fold (apply_entry h) (xs @ [v]) w) =
      entry_lines h xs w @ entry_lines h [v] (fold (apply_entry h) xs w)"
    by (rule new_console_append)
  then show ?thesis by (simp add: entry_lines_def)
qed

lemma entry_line_expected:
  "entry_lines h [v] (fold (apply_entry h) xs w) = [expected_line (key_of h w) xs v]"
  by (simp add: entry_lines_single expected_line_def vals_fold_expected)

lemma entry_lines_expected:
  "entry_lines h vs w =
     map (\<lambda>i. expected_line (key_of h w) (take i vs) (vs ! i)) [0..<length vs]"
proof (induction vs rule: rev_induct)
  case Nil
  then show ?case by simp
next
  case (snoc v xs)
  have "map (\<lambda>i. expected_line (key_of h w) (take i (xs @ [v])) ((xs @ [v]) ! i)) [0..<length xs] =
      map (\<lambda>i. expected_line (key_of h w) (take i xs) (xs ! i)) [0..<length xs]"
    by (rule map_cong) (simp_all add: nth_append)
  then show ?case
    using snoc.IH by (simp add: entry_lines_snoc entry_line_expected)
qed

text \<open>
  Claim C2, as the code has it. Without administrator rights and with system variables
  declared, a run makes no call on the system hive and leaves the system key as it was.
  When the user key opens, the run ends with the single "system variables ignored" report
  and has processed every user entry in order: each set or delete has had its store call,
  the console holds exactly the lines of the user entries (a write the key turns down is
  reported as failed), and the user key holds under every name the value of the last
  accepted entry on it, or its old value when there is none.
\<close>
theorem privilege_gating:
  "\<not> isAdmin \<and> SystemVariables c \<noteq> [] \<longrightarrow>
     filter (on_hive LOCAL_MACHINE) (new_trace w (snd (applyConfig isAdmin c w))) = [] \<and>
     hklm (snd (applyConfig isAdmin c w)) = hklm w \<and>
     (can_write (hkcu w) \<longrightarrow>
        fst (applyConfig isAdmin c w) = SystemVariablesIgnored \<and>
        new_trace w (snd (applyConfig isAdmin c w)) =
          EvOpenKey CURRENT_USER userEnvironmentPath #
          concat (map (store_call CURRENT_USER) (UserVariables c)) \<and>
        new_console w (snd (applyConfig isAdmin c w)) =
          map (\<lambda>i. expected_line (hkcu w) (take i (UserVariables c)) (UserVariables c ! i))
            [0..<length (UserVariables c)] \<and>
        vals (hkcu (snd (applyConfig isAdmin c w))) = expected_vals (hkcu w) (UserVariables c) \<and>
        can_write (hkcu (snd (applyConfig isAdmin c w))) \<and>
        refused (hkcu (snd (applyConfig isAdmin c w))) = refused (hkcu w) \<and>
        map outcome_name (new_console w (snd (applyConfig isAdmin c w))) =
          map Name (UserVariables c) \<and>
        snd (applyConfig isAdmin c w) =
          fold (apply_entry CURRENT_USER) (UserVariables c)
            (emit (EvOpenKey CURRENT_USER userEnvironmentPath) w))"
proof -
  have a: "filter (on_hive LOCAL_MACHINE) (new_trace w (snd (applyConfig isAdmin c w))) = [] \<and>
     hklm (snd (applyConfig isAdmin c w)) = hklm w"
    if "\<not> isAdmin \<and> SystemVariables c \<noteq> []"
    using that by (simp add: trace_applyConfig hklm_not_admin on_hive_store_calls)
  have b: "fst (applyConfig isAdmin c w) = SystemVariablesIgnored \<and>
        new_trace w (snd (applyConfig isAdmin c w)) =
          EvOpenKey CURRENT_USER userEnvironmentPath #
          concat (map (store_call CURRENT_USER) (UserVariables c)) \<and>
        map outcome_name (new_console w (snd (applyConfig isAdmin c w))) =
          map Name (UserVariables c)"
    if "\<not> isAdmin \<and> SystemVariables c \<noteq> []" "can_write (hkcu w)"
    using that by (simp add: trace_applyConfig status_applyConfig names_applyConfig)
  have d: "snd (applyConfig isAdmin c w) =
          fold (apply_entry CURRENT_USER) (UserVariables c)
            (emit (EvOpenKey CURRENT_USER userEnvironmentPath) w)"
    if "\<not> isAdmin \<and> SystemVariables c \<noteq> []" "can_write (hkcu w)"
    using that by (simp add: applyConfig_ignored)
  have l: "new_console w (snd (applyConfig isAdmin c w)) =
          map (\<lambda>i. expected_line (hkcu w) (take i (UserVariables c)) (UserVariables c ! i))
            [0..<length (UserVariables c)]"
    if "\<not> isAdmin \<and> SystemVariables c \<noteq> []" "can_write (hkcu w)"
    using that entry_lines_expected [of CURRENT_USER "UserVariables c" w]
    by (simp add: lines_applyConfig)
  have v: "vals (hkcu (snd (applyConfig isAdmin c w))) = expected_vals (hkcu w) (UserVariables c)"
    if "can_write (hkcu w)"
  proof
    fix n
    show "vals (hkcu (snd (applyConfig isAdmin c w))) n =
        expected_vals (hkcu w) (UserVariables c) n"
      using that vals_fold_expected [of CURRENT_USER "UserVariables c" w n]
      by (simp add: hkcu_applyConfig)
  qed
  have p: "can_write (hkcu (snd (applyConfig isAdmin c w))) \<and>
      refused (hkcu (snd (applyConfig isAdmin c w))) = refused (hkcu w)"
    if "can_write (hkcu w)"
    using that by (simp add: can_write_hkcu_after refused_hkcu_after)
  show ?thesis using a b d l v p by blast
qed

text \<open>
  "Every user entry is still applied" fails on two runs: a set that the key turns down
  is reported as failed and leaves the old value, and when the user key does not open the
  run ends with the store-access error, with no entry processed and no report that the
  system variables were skipped.
\<close>

theorem privilege_gating_counterexample:
  "SystemVariables config_both \<noteq> [] \<and>
   vals (hkcu (snd (applyConfig False config_both (world_with strict_key open_key)))) ''LOCKED'' =
     Some ''old'' \<and>
   new_console (world_with strict_key open_key)
     (snd (applyConfig False config_both (world_with strict_key open_key))) =
     [SetOk ''FOO'' ''1'', SetFailed ''LOCKED'' ''new'', AlreadyAbsent ''OLD''] \<and>
   fst (applyConfig False config_both (world_with closed_key open_key)) =
     ApplyUserError (StoreAccessError ''HKEY_CURRENT_USER'' ''Environment'') \<and>
   new_console (world_with closed_key open_key)
     (snd (applyConfig False config_both (world_with closed_key open_key))) = [] \<and>
   vals (hkcu (snd (applyConfig False config_both (world_with closed_key open_key)))) ''FOO'' =
     None"
proof -
  have s: "SystemVariables config_both \<noteq> []"
    by (simp add: example_defs)
  have cs: "can_write (hkcu (world_with strict_key open_key))"
    by (simp add: example_defs)
  have cc: "\<not> can_write (hkcu (world_with closed_key open_key))"
    by (simp add: example_defs)
  have "hkcu (snd (applyConfig False config_both (world_with strict_key open_key))) =
      key_of CURRENT_USER (fold (apply_entry CURRENT_USER) (UserVariables config_both)
        (world_with strict_key open_key))"
    using cs by (simp add: hkcu_applyConfig)
  then have v1: "vals (hkcu (snd (applyConfig False config_both
      (world_with strict_key open_key)))) ''LOCKED'' = Some ''old''"
    by (simp add: run_defs example_defs)
  have "new_console (world_with strict_key open_key)
      (snd (applyConfig False config_both (world_with strict_key open_key))) =
      entry_lines CURRENT_USER (UserVariables config_both) (world_with strict_key open_key)"
    using cs by (simp add: lines_applyConfig)
  then have l1: "new_console (world_with strict_key open_key)
      (snd (applyConfig False config_both (world_with strict_key open_key))) =
      [SetOk ''FOO'' ''1'', SetFailed ''LOCKED'' ''new'', AlreadyAbsent ''OLD'']"
    by (simp add: run_defs example_defs)
  have e2: "fst (applyConfig False config_both (world_with closed_key open_key)) =
      ApplyUserError (StoreAccessError ''HKEY_CURRENT_USER'' ''Environment'')"
    using cc by (simp add: status_applyConfig userEnvironmentPath_def)
  have l2: "new_console (world_with closed_key open_key)
      (snd (applyConfig False config_both (world_with closed_key open_key))) = []"
    using cc by (simp add: lines_applyConfig)
  have "hkcu (snd (applyConfig False config_both (world_with closed_key open_key))) =
      hkcu (world_with closed_key open_key)"
    using cc by (simp add: hkcu_applyConfig)
  then have v2: "vals (hkcu (snd (applyConfig False config_both
      (world_with closed_key open_key)))) ''FOO'' = None"
    by (simp add: example_defs)
  show ?thesis using s v1 l1 e2 l2 v2 by blast
qed

lemma expected_vals_demo:
  "expected_vals strict_key (UserVariables config_both) ''FOO'' = Some ''1'' \<and>
   expected_vals strict_key (UserVariables config_both) ''LOCKED'' = Some ''old'' \<and>
   expected_vals strict_key (UserVariables config_both) ''OLD'' = None"
  by (simp add: expected_vals_def last_accepted_def accepted_def example_defs)

lemma expected_lines_demo:
  "map (\<lambda>i. expected_line strict_key (take i (UserVariables config_both))
       (UserVariables config_both ! i)) [0..<length (UserVariables config_both)] =
     [SetOk ''FOO'' ''1'', SetFailed ''LOCKED'' ''new'', AlreadyAbsent ''OLD'']"
  by (simp add: expected_line_def expected_vals_def last_accepted_def accepted_def example_defs
      upt_rec numeral_eq_Suc)

theorem privilege_gating_witness:
  "SystemVariables config_both \<noteq> [] \<and> can_write (hkcu (world_with strict_key open_key)) \<and>
   fst (applyConfig False config_both (world_with strict_key open_key)) = SystemVariablesIgnored \<and>
   new_trace (world_with strict_key open_key)
     (snd (applyConfig False config_both (world_with strict_key open_key))) =
     [EvOpenKey CURRENT_USER ''Environment'', EvSetValue CURRENT_USER ''FOO'' ''1'',
      EvSetValue CURRENT_USER ''LOCKED'' ''new'', EvDeleteValue CURRENT_USER ''OLD''] \<and>
   new_console (world_with strict_key open_key)
     (snd (applyConfig False config_both (world_with strict_key open_key))) =
     [SetOk ''FOO'' ''1'', SetFailed ''LOCKED'' ''new'', AlreadyAbsent ''OLD''] \<and>
   vals (hkcu (snd (applyConfig False config_both (world_with strict_key open_key)))) ''FOO'' =
     Some ''1'' \<and>
   vals (hkcu (snd (applyConfig False config_both (world_with strict_key open_key)))) ''LOCKED'' =
     Some ''old'' \<and>
   vals (hkcu (snd (applyConfig False config_both (world_with strict_key open_key)))) ''OLD'' =
     None \<and>
   hklm (snd (applyConfig False config_both (world_with strict_key open_key))) = open_key"
proof -
  have h: "\<not> False \<and> SystemVariables config_both \<noteq> []"
    by (simp add: example_defs)
  have c: "can_write (hkcu (world_with strict_key open_key))"
    by (simp add: example_defs)
  have k: "hklm (world_with strict_key open_key) = open_key"
      "hkcu (world_with strict_key open_key) = strict_key"
    by (simp_all add: world_with_def)
  have t: "hklm (snd (applyConfig False config_both (world_with strict_key open_key))) =
      hklm (world_with strict_key open_key) \<and>
    fst (applyConfig False config_both (world_with strict_key open_key)) =
      SystemVariablesIgnored \<and>
    new_trace (world_with strict_key open_key)
      (snd (applyConfig False config_both (world_with strict_key open_key))) =
      EvOpenKey CURRENT_USER userEnvironmentPath #
      concat (map (store_call CURRENT_USER) (UserVariables config_both)) \<and>
    new_console (world_with strict_key open_key)
      (snd (applyConfig False config_both (world_with strict_key open_key))) =
      map (\<lambda>i. expected_line (hkcu (world_with strict_key open_key))
          (take i (UserVariables config_both)) (UserVariables config_both ! i))
        [0..<length (UserVariables config_both)] \<and>
    vals (hkcu (snd (applyConfig False config_both (world_with strict_key open_key)))) =
      expected_vals (hkcu (world_with strict_key open_key)) (UserVariables config_both)"
    using h c privilege_gating [of False config_both "world_with strict_key open_key"]
    by blast
  have tr: "EvOpenKey CURRENT_USER userEnvironmentPath #
      concat (map (store_call CURRENT_USER) (UserVariables config_both)) =
     [EvOpenKey CURRENT_USER ''Environment'', EvSetValue CURRENT_USER ''FOO'' ''1'',
      EvSetValue CURRENT_USER ''LOCKED'' ''new'', EvDeleteValue CURRENT_USER ''OLD'']"
    by (simp add: store_call_def userEnvironmentPath_def set_FOO_def set_LOCKED_def
        delete_OLD_def config_both_def)
  show ?thesis
    using h c t unfolding k tr expected_lines_demo
    using expected_vals_demo by simp
qed

end
